theory Spec2Isabelle
  imports Complex_Main "HOL-Library.AList"
begin

section \<open>Data model\<close>

text \<open>
  JavaScript numbers are modelled as \<^typ>\<open>real\<close>. In the physics (bodies, colliders,
  rays) rounding is abstracted away and the fields of bodies, game objects and colliders
  are taken to hold finite numbers; sums, differences and products of finite numbers are
  finite, and the two places where that code produces or stores a non-finite value are
  modelled explicitly: the \<open>Infinity\<close> default of \<open>maxVelocityX/Y\<close> (type \<open>limit\<close>) and
  the divisions of \<open>raycastBox\<close> (type \<open>jsnum\<close>). In the scheduler, where the number of
  physics ticks depends on the last bit of a sum, every operation rounds as a double
  does (section Scheduler).
\<close>

datatype limit = Infinity | Finite real

text \<open>
  \<open>RigidBody\<close> (physics/RigidBody.js). \<open>config.mass || 1\<close> makes the constructor's
  mass non-zero; \<open>config.maxVelocityX || Infinity\<close> is \<open>Infinity\<close> or the given number.
\<close>

record rigidbody =
  velocityX :: real
  velocityY :: real
  accelerationX :: real
  accelerationY :: real
  forceX :: real
  forceY :: real
  mass :: real
  drag :: real
  gravityScale :: real
  useGravity :: bool
  isKinematic :: bool
  maxVelocityX :: limit
  maxVelocityY :: limit
  isGrounded :: bool
  isTouchingWall :: bool

text \<open>
  \<open>GameObject\<close> (core/GameObject.js), reduced to what the physics code reads and writes:
  the display name, the \<open>active\<close> flag, the position, and the result of
  \<open>getComponent(RigidBody)\<close> (the first rigid body among the components, if any).
\<close>

record gameobject =
  name :: string
  go_active :: bool
  go_x :: real
  go_y :: real
  body :: "rigidbody option"

text \<open>
  Game objects are shared mutable objects: several colliders may hang on one game object.
  They live in a store indexed by address; a collider holds the address of its owner.
\<close>

type_synonym store = "nat \<Rightarrow> gameobject"

text \<open>
  \<open>constructor.name\<close> of a collider: \<open>BoxCollider\<close> with width and height,
  \<open>CircleCollider\<close> with radius, or anything else (the base class \<open>Collider\<close>, a subclass).
\<close>

datatype shape = BoxCollider real real | CircleCollider real | OtherCollider

text \<open>
  \<open>Collider\<close> (physics/Collider.js). \<open>cid\<close> stands for the identity of the collider
  object; \<open>active\<close> is the flag inherited from \<open>Component\<close>.
\<close>

record collider =
  cid :: nat
  gameObject :: nat
  active :: bool
  isTrigger :: bool
  offset_x :: real
  offset_y :: real
  shape :: shape

record bounds =
  bnd_x :: real
  bnd_y :: real
  bnd_width :: real
  bnd_height :: real

section \<open>Collider geometry\<close>

definition getWorldPosition :: "store \<Rightarrow> collider \<Rightarrow> real \<times> real" where
  "getWorldPosition st c =
     (go_x (st (gameObject c)) + offset_x c, go_y (st (gameObject c)) + offset_y c)"

text \<open>\<open>BoxCollider.getBounds\<close>, for a box of the given width and height.\<close>

definition getBounds :: "store \<Rightarrow> collider \<Rightarrow> real \<Rightarrow> real \<Rightarrow> bounds" where
  "getBounds st c w h =
     (let pos = getWorldPosition st c in
      \<lparr>bnd_x = fst pos - w / 2, bnd_y = snd pos - h / 2, bnd_width = w, bnd_height = h\<rparr>)"

text \<open>The bounds of a collider that is a box; other colliders have no \<open>getBounds\<close>.\<close>

definition boxBounds :: "store \<Rightarrow> collider \<Rightarrow> bounds option" where
  "boxBounds st c =
     (case shape c of BoxCollider w h \<Rightarrow> Some (getBounds st c w h) | _ \<Rightarrow> None)"

section \<open>Resolver\<close>

text \<open>\<open>rb && !rb.isKinematic\<close>\<close>

definition movable :: "rigidbody option \<Rightarrow> bool" where
  "movable rb = (case rb of None \<Rightarrow> False | Some r \<Rightarrow> \<not> isKinematic r)"

text \<open>\<open>rb?.isKinematic\<close>, as a truth value\<close>

definition kinematic :: "rigidbody option \<Rightarrow> bool" where
  "kinematic rb = (case rb of None \<Rightarrow> False | Some r \<Rightarrow> isKinematic r)"

definition rigidBodyOf :: "store \<Rightarrow> collider \<Rightarrow> rigidbody option" where
  "rigidBodyOf st c = body (st (gameObject c))"

definition overlapX :: "bounds \<Rightarrow> bounds \<Rightarrow> real" where
  "overlapX boundsA boundsB =
     min (bnd_x boundsA + bnd_width boundsA - bnd_x boundsB)
         (bnd_x boundsB + bnd_width boundsB - bnd_x boundsA)"

definition overlapY :: "bounds \<Rightarrow> bounds \<Rightarrow> real" where
  "overlapY boundsA boundsB =
     min (bnd_y boundsA + bnd_height boundsA - bnd_y boundsB)
         (bnd_y boundsB + bnd_height boundsB - bnd_y boundsA)"

text \<open>
  One side of the horizontal branch: \<open>g.x += d; rb.velocityX = 0; rb.isTouchingWall = true\<close>
  on the game object at address \<open>g\<close>.
\<close>

definition pushX :: "nat \<Rightarrow> real \<Rightarrow> store \<Rightarrow> store" where
  "pushX g d st =
     st(g := (st g)\<lparr>go_x := go_x (st g) + d,
                    body := map_option (\<lambda>r. r\<lparr>velocityX := 0, isTouchingWall := True\<rparr>)
                              (body (st g))\<rparr>)"

text \<open>
  One side of the vertical branch: \<open>g.y += d; rb.velocityY = 0\<close>, and
  \<open>rb.isGrounded = true\<close> when \<open>grounded\<close>.
\<close>

definition pushY :: "nat \<Rightarrow> real \<Rightarrow> bool \<Rightarrow> store \<Rightarrow> store" where
  "pushY g d grounded st =
     st(g := (st g)\<lparr>go_y := go_y (st g) + d,
                    body := map_option
                              (\<lambda>r. if grounded then r\<lparr>velocityY := 0, isGrounded := True\<rparr>
                                    else r\<lparr>velocityY := 0\<rparr>)
                              (body (st g))\<rparr>)"

text \<open>The branch taken when \<open>overlapX < overlapY\<close>.\<close>

definition resolveHorizontal :: "store \<Rightarrow> collider \<Rightarrow> collider \<Rightarrow> bounds \<Rightarrow> bounds \<Rightarrow> store" where
  "resolveHorizontal st a b boundsA boundsB =
     (let direction = (if bnd_x boundsA < bnd_x boundsB then - 1 else 1 :: real);
          st1 = (if movable (rigidBodyOf st a)
                 then pushX (gameObject a)
                        (direction * overlapX boundsA boundsB
                           / (if movable (rigidBodyOf st b) then 2 else 1)) st
                 else st);
          st2 = (if movable (rigidBodyOf st1 b)
                 then pushX (gameObject b)
                        (- (direction * overlapX boundsA boundsB
                           / (if movable (rigidBodyOf st1 a) then 2 else 1))) st1
                 else st1)
      in st2)"

text \<open>The branch taken otherwise.\<close>

definition resolveVertical :: "store \<Rightarrow> collider \<Rightarrow> collider \<Rightarrow> bounds \<Rightarrow> bounds \<Rightarrow> store" where
  "resolveVertical st a b boundsA boundsB =
     (let direction = (if bnd_y boundsA < bnd_y boundsB then - 1 else 1 :: real);
          st1 = (if movable (rigidBodyOf st a)
                 then pushY (gameObject a)
                        (direction * overlapY boundsA boundsB
                           / (if movable (rigidBodyOf st b) then 2 else 1))
                        (direction < 0) st
                 else st);
          st2 = (if movable (rigidBodyOf st1 b)
                 then pushY (gameObject b)
                        (- (direction * overlapY boundsA boundsB
                           / (if movable (rigidBodyOf st1 a) then 2 else 1)))
                        (direction > 0) st1
                 else st1)
      in st2)"

text \<open>\<open>Physics.resolveCollision(a, b)\<close>\<close>

definition resolveCollision :: "store \<Rightarrow> collider \<Rightarrow> collider \<Rightarrow> store" where
  "resolveCollision st a b =
     (let rbA = rigidBodyOf st a; rbB = rigidBodyOf st b in
      if (rbA = None \<and> rbB = None) \<or> (kinematic rbA \<and> kinematic rbB) then st
      else
        (case (boxBounds st a, boxBounds st b) of
           (Some boundsA, Some boundsB) \<Rightarrow>
             if overlapX boundsA boundsB < overlapY boundsA boundsB
             then resolveHorizontal st a b boundsA boundsB
             else resolveVertical st a b boundsA boundsB
         | _ \<Rightarrow> st))"

section \<open>Physics world\<close>

text \<open>
  \<open>Physics\<close> (physics/Physics.js). \<open>collisionMatrix\<close> is a JavaScript \<open>Map\<close>: an
  association list in insertion order, written with \<open>AList.update\<close> (\<open>Map.set\<close> keeps the
  position of an existing key and appends a new one). A stored pair \<open>{a, b}\<close> holds the
  two collider objects.
\<close>

record physics =
  gravity :: real
  colliders :: "collider list"
  collisionMatrix :: "(string \<times> collider \<times> collider) list"

section \<open>Body integration\<close>

text \<open>\<open>Math.max(-m, Math.min(m, v))\<close>\<close>

fun clamp :: "limit \<Rightarrow> real \<Rightarrow> real" where
  "clamp Infinity v = v"
| "clamp (Finite m) v = max (- m) (min m v)"

text \<open>
  \<open>RigidBody.fixedUpdate(dt)\<close> for the body of a game object. The first argument is
  \<open>this.scene?.physics\<close>: \<open>None\<close> when the game object is in no scene or the scene has no
  \<open>physics\<close> property (class \<open>Scene\<close> does not create one; callers assign it).
\<close>

definition fixedUpdate :: "physics option \<Rightarrow> real \<Rightarrow> gameobject \<Rightarrow> gameobject" where
  "fixedUpdate scenePhysics dt go =
     (case body go of
        None \<Rightarrow> go
      | Some rb \<Rightarrow>
          if isKinematic rb then go
          else
            let rb1 = (case scenePhysics of
                         Some ph \<Rightarrow>
                           if useGravity rb
                           then rb\<lparr>accelerationY := accelerationY rb + gravity ph * gravityScale rb\<rparr>
                           else rb
                       | None \<Rightarrow> rb);
                rb2 = rb1\<lparr>accelerationX := accelerationX rb1 + forceX rb1 / mass rb1,
                          accelerationY := accelerationY rb1 + forceY rb1 / mass rb1\<rparr>;
                rb3 = rb2\<lparr>velocityX := velocityX rb2 + accelerationX rb2 * dt,
                          velocityY := velocityY rb2 + accelerationY rb2 * dt\<rparr>;
                rb4 = rb3\<lparr>velocityX := velocityX rb3 * (1 - drag rb3),
                          velocityY := velocityY rb3 * (1 - drag rb3)\<rparr>;
                rb5 = rb4\<lparr>velocityX := clamp (maxVelocityX rb4) (velocityX rb4),
                          velocityY := clamp (maxVelocityY rb4) (velocityY rb4)\<rparr>;
                go1 = go\<lparr>go_x := go_x go + velocityX rb5 * dt,
                         go_y := go_y go + velocityY rb5 * dt\<rparr>;
                rb6 = rb5\<lparr>forceX := 0, forceY := 0, accelerationX := 0, accelerationY := 0\<rparr>
            in go1\<lparr>body := Some rb6\<rparr>)"

section \<open>Scheduler\<close>

subsection \<open>Double-precision arithmetic\<close>

text \<open>
  The scheduler adds and subtracts small time steps and compares the results with one
  another, so its numbers are modelled as what they are: IEEE 754 binary64 values,
  written as the reals they denote, every arithmetic result being rounded to the nearest
  double, ties to the even significand. \<open>rne y\<close> is the integer nearest to \<open>y\<close>, ties to
  the even one.
\<close>

definition rne :: "real \<Rightarrow> int" where
  "rne y =
     (let f = \<lfloor>y\<rfloor> in
      if y - of_int f < 1 / 2 then f
      else if y - of_int f > 1 / 2 then f + 1
      else if even f then f else f + 1)"

text \<open>
  \<open>expo x\<close> is the binary exponent of a positive \<open>x\<close>: the integer \<open>e\<close> with
  \<open>2^e \<le> x < 2^(e + 1)\<close>.
\<close>

function expo :: "real \<Rightarrow> int" where
  "expo x = (if x \<le> 0 then 0
             else if 2 \<le> x then expo (x / 2) + 1
             else if x < 1 then expo (x * 2) - 1
             else 0)"
  by pat_completeness auto

termination
proof (relation "measure (\<lambda>x. nat \<bar>\<lfloor>log 2 x\<rfloor>\<bar>)")
  show "wf (measure (\<lambda>x. nat \<bar>\<lfloor>log 2 x\<rfloor>\<bar>))" by simp
next
  fix x :: real
  assume "\<not> x \<le> 0" and x: "2 \<le> x"
  have "log 2 (x / 2) = log 2 x - 1" using x by (simp add: log_divide)
  moreover have "1 \<le> log 2 x" using x by (simp add: le_log_iff)
  ultimately show "(x / 2, x) \<in> measure (\<lambda>x. nat \<bar>\<lfloor>log 2 x\<rfloor>\<bar>)"
    by (simp; linarith)
next
  fix x :: real
  assume "\<not> x \<le> 0" and "\<not> 2 \<le> x" and x: "x < 1"
  then have pos: "0 < x" by simp
  have "log 2 (x * 2) = log 2 x + 1" using pos by (simp add: log_mult)
  then have e: "\<lfloor>log 2 (x * 2)\<rfloor> = \<lfloor>log 2 x\<rfloor> + 1" by simp
  have "log 2 x < 0" using pos x by simp
  then have n: "\<lfloor>log 2 x\<rfloor> < 0" by linarith
  show "(x * 2, x) \<in> measure (\<lambda>x. nat \<bar>\<lfloor>log 2 x\<rfloor>\<bar>)"
    unfolding in_measure e using n by linarith
qed

text \<open>
  \<open>quantum x\<close> is the distance between neighbouring doubles at \<open>x\<close>: \<open>2^(e - 52)\<close> for
  a number with binary exponent \<open>e\<close> (53 significant bits), and \<open>2^(-1074)\<close> in the
  subnormal range below \<open>2^(-1022)\<close>. \<open>fl x\<close> is \<open>x\<close> rounded to the nearest multiple of
  it. The exponent has no upper end here: overflow to \<open>Infinity\<close> is not modelled, nor
  is \<open>NaN\<close>; the timestamps of \<open>performance.now()\<close> and \<open>requestAnimationFrame\<close> are
  finite and far from overflow.
\<close>

definition quantum :: "real \<Rightarrow> real" where
  "quantum x = 2 powi (max (expo \<bar>x\<bar>) (- 1022) - 52)"

definition fl :: "real \<Rightarrow> real" where
  "fl x = (if x = 0 then 0 else of_int (rne (x / quantum x)) * quantum x)"

text \<open>The operators \<open>+\<close>, \<open>-\<close> and \<open>/\<close> on doubles.\<close>

definition fadd :: "real \<Rightarrow> real \<Rightarrow> real" where "fadd a b = fl (a + b)"
definition fsub :: "real \<Rightarrow> real \<Rightarrow> real" where "fsub a b = fl (a - b)"
definition fdiv :: "real \<Rightarrow> real \<Rightarrow> real" where "fdiv a b = fl (a / b)"

subsection \<open>The game loop\<close>

text \<open>
  \<open>Engine\<close> (core/Engine.js), reduced to the state the game loop reads and writes.
  \<open>hasScene\<close> is \<open>currentScene\<close> being non-null. Times given to \<open>gameLoop\<close> are in
  milliseconds, the other times in seconds. The timing fields hold doubles; the literal
  \<open>0.1\<close> is \<open>fl (1 / 10)\<close> and the constructor's \<open>1 / 60\<close> is \<open>fdiv 1 60\<close>.
\<close>

record engine =
  isRunning :: bool
  isPaused :: bool
  hasScene :: bool
  lastTime :: real
  deltaTime :: real
  fixedDeltaTime :: real
  accumulator :: real
  fps :: nat
  frameCount :: nat
  fpsTime :: real

text \<open>
  What one call of \<open>gameLoop\<close> does besides updating the engine: the arguments of the
  calls \<open>currentScene.fixedUpdate(dt)\<close> in order, the argument of
  \<open>currentScene.update(dt)\<close> if it was called, and whether \<open>render()\<close> was called.
  The scene's callbacks are taken not to write the engine's timing fields.
\<close>

record frame =
  fr_engine :: engine
  fr_ticks :: "real list"
  fr_update :: "real option"
  fr_rendered :: bool

text \<open>
  The loop \<open>while (accumulator >= fixedDeltaTime) { fixedUpdate(fixedDeltaTime);
  accumulator -= fixedDeltaTime }\<close>. It does not end for every input (a subtraction
  that rounds back to the accumulator repeats forever), so not returning is the value
  \<open>None\<close>.
\<close>

partial_function (option) tickLoop :: "real \<Rightarrow> real \<Rightarrow> real list \<Rightarrow> (real \<times> real list) option" where
  "tickLoop fixed acc ticks =
     (if acc \<ge> fixed then tickLoop fixed (fsub acc fixed) (ticks @ [fixed])
      else Some (acc, ticks))"

text \<open>\<open>Engine.gameLoop(currentTime)\<close>, without the request for the next animation frame.\<close>

definition gameLoop :: "real \<Rightarrow> engine \<Rightarrow> frame option" where
  "gameLoop currentTime e =
     (if \<not> isRunning e
      then Some \<lparr>fr_engine = e, fr_ticks = [], fr_update = None, fr_rendered = False\<rparr>
      else
        let dt = min (fdiv (fsub currentTime (lastTime e)) 1000) (fl (1 / 10));
            e1 = e\<lparr>deltaTime := dt, lastTime := currentTime\<rparr>;
            e2 = e1\<lparr>frameCount := frameCount e1 + 1, fpsTime := fadd (fpsTime e1) dt\<rparr>;
            e3 = (if fpsTime e2 \<ge> 1
                  then e2\<lparr>fps := frameCount e2, frameCount := 0, fpsTime := 0\<rparr>
                  else e2)
        in if \<not> isPaused e3 \<and> hasScene e3
           then (case tickLoop (fixedDeltaTime e3) (fadd (accumulator e3) dt) [] of
                   None \<Rightarrow> None
                 | Some (acc, ts) \<Rightarrow>
                     Some \<lparr>fr_engine = e3\<lparr>accumulator := acc\<rparr>, fr_ticks = ts,
                           fr_update = Some dt, fr_rendered = True\<rparr>)
           else Some \<lparr>fr_engine = e3, fr_ticks = [], fr_update = None, fr_rendered = True\<rparr>)"

text \<open>Successive frames at the given times; the physics ticks of all of them, in order.\<close>

fun runFrames :: "real list \<Rightarrow> engine \<Rightarrow> (engine \<times> real list) option" where
  "runFrames [] e = Some (e, [])"
| "runFrames (t # ts) e =
     (case gameLoop t e of
        None \<Rightarrow> None
      | Some fr \<Rightarrow>
          (case runFrames ts (fr_engine fr) of
             None \<Rightarrow> None
           | Some (e', ticks) \<Rightarrow> Some (e', fr_ticks fr @ ticks)))"

text \<open>
  \<open>Engine.setScene(name)\<close> for a name that \<open>addScene\<close> has registered, and
  \<open>Engine.start()\<close> when \<open>performance.now()\<close> returns \<open>now\<close>: \<open>start\<close> of a running
  engine returns at once, otherwise it runs the first frame itself.
\<close>

definition setScene :: "engine \<Rightarrow> engine" where
  "setScene e = e\<lparr>hasScene := True\<rparr>"

definition start :: "real \<Rightarrow> engine \<Rightarrow> frame option" where
  "start now e =
     (if isRunning e
      then Some \<lparr>fr_engine = e, fr_ticks = [], fr_update = None, fr_rendered = False\<rparr>
      else gameLoop now (e\<lparr>isRunning := True, lastTime := now\<rparr>))"

section \<open>Intersection predicates\<close>

text \<open>\<open>BoxCollider.intersects\<close>, on the two bounds.\<close>

definition boxIntersects :: "bounds \<Rightarrow> bounds \<Rightarrow> bool" where
  "boxIntersects a b =
     (bnd_x a < bnd_x b + bnd_width b \<and> bnd_x a + bnd_width a > bnd_x b \<and>
      bnd_y a < bnd_y b + bnd_height b \<and> bnd_y a + bnd_height a > bnd_y b)"

text \<open>\<open>CircleCollider.intersects\<close>, on the two centres and radii.\<close>

definition circleIntersects :: "real \<times> real \<Rightarrow> real \<Rightarrow> real \<times> real \<Rightarrow> real \<Rightarrow> bool" where
  "circleIntersects pos1 r1 pos2 r2 =
     (let dx = fst pos2 - fst pos1; dy = snd pos2 - snd pos1
      in sqrt (dx * dx + dy * dy) < r1 + r2)"

text \<open>\<open>CircleCollider.intersectsBox\<close>, on the centre, the radius and the box's bounds.\<close>

definition intersectsBox :: "real \<times> real \<Rightarrow> real \<Rightarrow> bounds \<Rightarrow> bool" where
  "intersectsBox circle r rect =
     (let closestX = max (bnd_x rect) (min (fst circle) (bnd_x rect + bnd_width rect));
          closestY = max (bnd_y rect) (min (snd circle) (bnd_y rect + bnd_height rect));
          dx = fst circle - closestX;
          dy = snd circle - closestY
      in dx * dx + dy * dy < r * r)"

text \<open>
  The dispatch on the two \<open>constructor.name\<close>s in \<open>detectCollisions\<close>; \<open>isColliding\<close>
  stays \<open>false\<close> when no case matches.
\<close>

definition isColliding :: "store \<Rightarrow> collider \<Rightarrow> collider \<Rightarrow> bool" where
  "isColliding st a b =
     (case (shape a, shape b) of
        (BoxCollider wa ha, BoxCollider wb hb) \<Rightarrow>
          boxIntersects (getBounds st a wa ha) (getBounds st b wb hb)
      | (CircleCollider ra, CircleCollider rb) \<Rightarrow>
          circleIntersects (getWorldPosition st a) ra (getWorldPosition st b) rb
      | (CircleCollider ra, BoxCollider wb hb) \<Rightarrow>
          intersectsBox (getWorldPosition st a) ra (getBounds st b wb hb)
      | (BoxCollider wa ha, CircleCollider rb) \<Rightarrow>
          intersectsBox (getWorldPosition st b) rb (getBounds st a wa ha)
      | _ \<Rightarrow> False)"

section \<open>Contact-pair keys\<close>

definition digit_char :: "nat \<Rightarrow> char" where
  "digit_char d =
     (if d = 0 then CHR ''0'' else if d = 1 then CHR ''1'' else if d = 2 then CHR ''2''
      else if d = 3 then CHR ''3'' else if d = 4 then CHR ''4'' else if d = 5 then CHR ''5''
      else if d = 6 then CHR ''6'' else if d = 7 then CHR ''7'' else if d = 8 then CHR ''8''
      else CHR ''9'')"

text \<open>The decimal digits of a loop index, as the template string prints it.\<close>

fun show_nat :: "nat \<Rightarrow> string" where
  "show_nat n =
     (if n < 10 then [digit_char n] else show_nat (n div 10) @ [digit_char (n mod 10)])"

declare show_nat.simps [simp del]

text \<open>\<open>gameObject.name || i\<close>: the name unless it is empty, else the index.\<close>

definition nameOr :: "string \<Rightarrow> nat \<Rightarrow> string" where
  "nameOr n i = (if n = [] then show_nat i else n)"

text \<open>The key \<open>`${a.gameObject.name || i}-${b.gameObject.name || j}`\<close>.\<close>

definition pairKey :: "store \<Rightarrow> collider \<Rightarrow> nat \<Rightarrow> collider \<Rightarrow> nat \<Rightarrow> string" where
  "pairKey st a i b j =
     nameOr (name (st (gameObject a))) i @ ''-'' @ nameOr (name (st (gameObject b))) j"

section \<open>Collision detection\<close>

text \<open>
  What a detection pass does to the outside, in order: the pair reached the type
  dispatch that runs its intersection test; a callback \<open>receiver.onCollisionX(other)\<close>
  was called; \<open>resolveCollision(a, b)\<close> was called. The callbacks are called whenever the
  code reaches them (class \<open>Collider\<close> defines all three) and are taken not to write the
  physics world or the store.
\<close>

datatype callback = OnCollisionEnter | OnCollisionStay | OnCollisionExit

datatype action =
    Intersect collider collider
  | Call collider callback collider
  | Resolve collider collider

type_synonym contacts = "(string \<times> collider \<times> collider) list"

text \<open>\<open>Map.has\<close>\<close>

definition hasKey :: "contacts \<Rightarrow> string \<Rightarrow> bool" where
  "hasKey m k = (map_of m k \<noteq> None)"

text \<open>The index pairs \<open>(i, j)\<close>, \<open>i < j < n\<close>, in the order of the two nested loops.\<close>

definition pairs :: "nat \<Rightarrow> (nat \<times> nat) list" where
  "pairs n = concat (map (\<lambda>i. map (\<lambda>j. (i, j)) [Suc i..<n]) [0..<n])"

text \<open>
  The body of the inner loop for the index pair \<open>(i, j)\<close>, on the store, the new contact
  table and the actions so far.
\<close>

definition detectPair ::
  "collider list \<Rightarrow> contacts \<Rightarrow> store \<times> contacts \<times> action list \<Rightarrow> nat \<times> nat
     \<Rightarrow> store \<times> contacts \<times> action list" where
  "detectPair cs prev s p =
     (case s of (st, newCollisions, acts) \<Rightarrow>
      let a = cs ! fst p; b = cs ! snd p in
      if \<not> active a \<or> \<not> active b then (st, newCollisions, acts)
      else
        let colliding = isColliding st a b;
            key = pairKey st a (fst p) b (snd p)
        in if colliding
           then
             let new' = AList.update key (a, b) newCollisions;
                 acts' = acts @ [Intersect a b] @
                          (if hasKey prev key
                           then [Call a OnCollisionStay b, Call b OnCollisionStay a]
                           else [Call a OnCollisionEnter b, Call b OnCollisionEnter a])
             in if \<not> isTrigger a \<and> \<not> isTrigger b
                then (resolveCollision st a b, new', acts' @ [Resolve a b])
                else (st, new', acts')
           else (st, newCollisions, acts @ [Intersect a b]))"

text \<open>The loop over the previous table that delivers the exits.\<close>

definition exitCalls :: "contacts \<Rightarrow> contacts \<Rightarrow> action list" where
  "exitCalls prev newCollisions =
     concat (map (\<lambda>(key, a, b).
                    if hasKey newCollisions key then []
                    else [Call a OnCollisionExit b, Call b OnCollisionExit a]) prev)"

text \<open>\<open>Physics.detectCollisions()\<close>: the new world, the new store and the actions.\<close>

definition detectCollisions :: "physics \<Rightarrow> store \<Rightarrow> physics \<times> store \<times> action list" where
  "detectCollisions ph st =
     (case foldl (detectPair (colliders ph) (collisionMatrix ph)) (st, [], [])
             (pairs (length (colliders ph))) of
        (st', newCollisions, acts) \<Rightarrow>
          (ph\<lparr>collisionMatrix := newCollisions\<rparr>, st',
           acts @ exitCalls (collisionMatrix ph) newCollisions))"

text \<open>\<open>Physics.addCollider\<close> and \<open>Physics.removeCollider\<close>\<close>

definition addCollider :: "collider \<Rightarrow> physics \<Rightarrow> physics" where
  "addCollider c ph = ph\<lparr>colliders := colliders ph @ [c]\<rparr>"

definition removeCollider :: "collider \<Rightarrow> physics \<Rightarrow> physics" where
  "removeCollider c ph = ph\<lparr>colliders := remove1 c (colliders ph)\<rparr>"

text \<open>
  Successive detection ticks. Between two ticks the collider list and the store may
  have been changed by anyone; the contact table is what the previous tick left.
  The result is the list of the ticks' actions.
\<close>

fun detectRun :: "physics \<Rightarrow> (collider list \<times> store) list \<Rightarrow> action list list" where
  "detectRun ph [] = []"
| "detectRun ph (w # ws) =
     (case detectCollisions (ph\<lparr>colliders := fst w\<rparr>) (snd w) of
        (ph', st', acts) \<Rightarrow> acts # detectRun ph' ws)"

section \<open>Observing a detection pass\<close>

text \<open>Whether an action involves the collider \<open>c\<close>, and whether it is an exit callback.\<close>

fun mentions :: "collider \<Rightarrow> action \<Rightarrow> bool" where
  "mentions c (Intersect a b) = (c = a \<or> c = b)"
| "mentions c (Call a cb b) = (c = a \<or> c = b)"
| "mentions c (Resolve a b) = (c = a \<or> c = b)"

fun isExit :: "action \<Rightarrow> bool" where
  "isExit (Call a OnCollisionExit b) = True"
| "isExit _ = False"

text \<open>The callbacks that one of \<open>a\<close> and \<open>b\<close> receives about the other.\<close>

fun callsBetween :: "collider \<Rightarrow> collider \<Rightarrow> action \<Rightarrow> bool" where
  "callsBetween a b (Call r cb t) = ((r = a \<and> t = b) \<or> (r = b \<and> t = a))"
| "callsBetween a b _ = False"

text \<open>\<open>Array.indexOf\<close> for a collider that is in the list.\<close>

fun indexOf :: "collider \<Rightarrow> collider list \<Rightarrow> nat" where
  "indexOf c [] = 0"
| "indexOf c (x # xs) = (if x = c then 0 else Suc (indexOf c xs))"

text \<open>
  What the body of the inner loop does to the store for the index pair \<open>p\<close>, and the
  store when the loops reach \<open>p\<close>: the pairs before it that were found colliding, and
  have no trigger, have been resolved.
\<close>

definition stepStore :: "collider list \<Rightarrow> store \<Rightarrow> nat \<times> nat \<Rightarrow> store" where
  "stepStore cs st p =
     (let a = cs ! fst p; b = cs ! snd p in
      if active a \<and> active b \<and> isColliding st a b \<and> \<not> isTrigger a \<and> \<not> isTrigger b
      then resolveCollision st a b else st)"

definition storeBefore :: "collider list \<Rightarrow> store \<Rightarrow> nat \<times> nat \<Rightarrow> store" where
  "storeBefore cs st p =
     foldl (stepStore cs) st (takeWhile (\<lambda>q. q \<noteq> p) (pairs (length cs)))"

text \<open>
  The pass over the colliders \<open>cs\<close> from the store \<open>st\<close> finds \<open>a\<close> and \<open>b\<close> overlapping:
  both are active and their intersection test succeeds when the loops reach them.
\<close>

definition overlapsInPass :: "collider \<Rightarrow> collider \<Rightarrow> collider list \<times> store \<Rightarrow> bool" where
  "overlapsInPass a b w =
     (active a \<and> active b \<and>
      isColliding (storeBefore (fst w) (snd w) (indexOf a (fst w), indexOf b (fst w))) a b)"

text \<open>The key of the index pair \<open>p\<close> in a pass over \<open>cs\<close> from the store \<open>st\<close>.\<close>

definition keyAt :: "collider list \<Rightarrow> store \<Rightarrow> nat \<times> nat \<Rightarrow> string" where
  "keyAt cs st p = pairKey st (cs ! fst p) (fst p) (cs ! snd p) (snd p)"

text \<open>
  On the tick \<open>w\<close> (collider list and store), every collider is registered once, \<open>a\<close> is
  registered before \<open>b\<close>, the key of the pair is \<open>k\<close>, and no other index pair has the
  key \<open>k\<close>.
\<close>

definition stablePair :: "string \<Rightarrow> collider \<Rightarrow> collider \<Rightarrow> collider list \<times> store \<Rightarrow> bool" where
  "stablePair k a b w =
     (distinct (fst w) \<and> a \<in> set (fst w) \<and> b \<in> set (fst w) \<and>
      indexOf a (fst w) < indexOf b (fst w) \<and>
      keyAt (fst w) (snd w) (indexOf a (fst w), indexOf b (fst w)) = k \<and>
      (\<forall>q \<in> set (pairs (length (fst w))).
         q \<noteq> (indexOf a (fst w), indexOf b (fst w)) \<longrightarrow> keyAt (fst w) (snd w) q \<noteq> k))"

text \<open>
  The contact table holds nothing under the key \<open>k\<close> and nothing for the pair \<open>a\<close>, \<open>b\<close>;
  as a \<open>Map\<close>, it has every key once.
\<close>

definition notInContact :: "string \<Rightarrow> collider \<Rightarrow> collider \<Rightarrow> contacts \<Rightarrow> bool" where
  "notInContact k a b m =
     (distinct (map fst m) \<and>
      (\<forall>e \<in> set m. fst e \<noteq> k \<and> snd e \<noteq> (a, b) \<and> snd e \<noteq> (b, a)))"

text \<open>
  In the contact table the key \<open>k\<close> holds the pair \<open>a\<close>, \<open>b\<close> if anything, and the pair is
  held under no other key; the table has every key once.
\<close>

definition ownKey :: "string \<Rightarrow> collider \<Rightarrow> collider \<Rightarrow> contacts \<Rightarrow> bool" where
  "ownKey k a b m =
     (distinct (map fst m) \<and>
      (\<forall>e \<in> set m. (fst e = k \<longrightarrow> snd e = (a, b)) \<and>
                     (snd e = (a, b) \<or> snd e = (b, a) \<longrightarrow> fst e = k)))"

text \<open>
  The callbacks between \<open>a\<close> and \<open>b\<close> that the event lifecycle prescribes, tick by tick,
  for a sequence of overlap observations; \<open>inContact\<close> says whether the pair was in
  contact on the tick before.
\<close>

fun lifecycle :: "collider \<Rightarrow> collider \<Rightarrow> bool \<Rightarrow> bool list \<Rightarrow> action list list" where
  "lifecycle a b inContact [] = []"
| "lifecycle a b inContact (ov # ovs) =
     (if ov
      then (if inContact
            then [Call a OnCollisionStay b, Call b OnCollisionStay a]
            else [Call a OnCollisionEnter b, Call b OnCollisionEnter a])
      else (if inContact
            then [Call a OnCollisionExit b, Call b OnCollisionExit a]
            else [])) # lifecycle a b ov ovs"

section \<open>Ray casting\<close>

text \<open>
  The values a division of two finite numbers can have in JavaScript: a finite number,
  \<open>Infinity\<close>, \<open>-Infinity\<close> or \<open>NaN\<close>. A zero divisor is taken to be \<open>+0\<close>.
\<close>

datatype jsnum = Num real | PosInf | NegInf | NaN

definition jsdiv :: "real \<Rightarrow> real \<Rightarrow> jsnum" where
  "jsdiv a b =
     (if b \<noteq> 0 then Num (a / b)
      else if a > 0 then PosInf else if a < 0 then NegInf else NaN)"

text \<open>\<open>a < b\<close>, false when either side is \<open>NaN\<close>.\<close>

fun jsless :: "jsnum \<Rightarrow> jsnum \<Rightarrow> bool" where
  "jsless NaN _ = False"
| "jsless _ NaN = False"
| "jsless (Num a) (Num b) = (a < b)"
| "jsless (Num a) PosInf = True"
| "jsless (Num a) NegInf = False"
| "jsless PosInf _ = False"
| "jsless NegInf NegInf = False"
| "jsless NegInf _ = True"

text \<open>\<open>Math.min\<close> and \<open>Math.max\<close>: \<open>NaN\<close> when either argument is.\<close>

definition jsmin :: "jsnum \<Rightarrow> jsnum \<Rightarrow> jsnum" where
  "jsmin a b = (if a = NaN \<or> b = NaN then NaN else if jsless b a then b else a)"

definition jsmax :: "jsnum \<Rightarrow> jsnum \<Rightarrow> jsnum" where
  "jsmax a b = (if a = NaN \<or> b = NaN then NaN else if jsless a b then b else a)"

text \<open>A finite number times, and plus, such a value.\<close>

fun jsmul :: "real \<Rightarrow> jsnum \<Rightarrow> jsnum" where
  "jsmul d (Num t) = Num (d * t)"
| "jsmul d PosInf = (if d > 0 then PosInf else if d < 0 then NegInf else NaN)"
| "jsmul d NegInf = (if d > 0 then NegInf else if d < 0 then PosInf else NaN)"
| "jsmul d NaN = NaN"

fun jsadd :: "real \<Rightarrow> jsnum \<Rightarrow> jsnum" where
  "jsadd c (Num t) = Num (c + t)"
| "jsadd c PosInf = PosInf"
| "jsadd c NegInf = NegInf"
| "jsadd c NaN = NaN"

record rayhit =
  hit_distance :: jsnum
  hit_x :: jsnum
  hit_y :: jsnum

text \<open>\<open>Physics.raycastBox(x, y, dirX, dirY, maxDistance, box)\<close>\<close>

definition raycastBox :: "real \<Rightarrow> real \<Rightarrow> real \<Rightarrow> real \<Rightarrow> real \<Rightarrow> bounds \<Rightarrow> rayhit option" where
  "raycastBox x0 y0 dirX dirY maxDistance box =
     (let tMin = jsdiv (bnd_x box - x0) dirX;
          tMax = jsdiv (bnd_x box + bnd_width box - x0) dirX;
          tYMin = jsdiv (bnd_y box - y0) dirY;
          tYMax = jsdiv (bnd_y box + bnd_height box - y0) dirY;
          t1 = jsmin tMin tMax;
          t2 = jsmax tMin tMax;
          t3 = jsmin tYMin tYMax;
          t4 = jsmax tYMin tYMax;
          tNear = jsmax t1 t3;
          tFar = jsmin t2 t4
      in if jsless tFar tNear \<or> jsless tFar (Num 0) \<or> jsless (Num maxDistance) tNear
         then None
         else Some \<lparr>hit_distance = tNear,
                    hit_x = jsadd x0 (jsmul dirX tNear),
                    hit_y = jsadd y0 (jsmul dirY tNear)\<rparr>)"

text \<open>
  The loop of \<open>Physics.raycast\<close> over the colliders, with \<open>closestHit\<close> (the hit and its
  collider) and \<open>closestDistance\<close>.
\<close>

fun raycastLoop ::
  "store \<Rightarrow> real \<Rightarrow> real \<Rightarrow> real \<Rightarrow> real \<Rightarrow> real \<Rightarrow> collider list
     \<Rightarrow> (rayhit \<times> collider) option \<Rightarrow> jsnum \<Rightarrow> (rayhit \<times> collider) option" where
  "raycastLoop st x0 y0 dirX dirY distance [] closestHit closestDistance = closestHit"
| "raycastLoop st x0 y0 dirX dirY distance (c # cs) closestHit closestDistance =
     (if \<not> active c then raycastLoop st x0 y0 dirX dirY distance cs closestHit closestDistance
      else
        (case shape c of
           BoxCollider w h \<Rightarrow>
             (case raycastBox x0 y0 dirX dirY distance (getBounds st c w h) of
                Some hit \<Rightarrow>
                  if jsless (hit_distance hit) closestDistance
                  then raycastLoop st x0 y0 dirX dirY distance cs (Some (hit, c)) (hit_distance hit)
                  else raycastLoop st x0 y0 dirX dirY distance cs closestHit closestDistance
              | None \<Rightarrow> raycastLoop st x0 y0 dirX dirY distance cs closestHit closestDistance)
         | _ \<Rightarrow> raycastLoop st x0 y0 dirX dirY distance cs closestHit closestDistance))"

text \<open>\<open>Physics.raycast(x, y, dirX, dirY, distance)\<close>\<close>

definition raycast ::
  "physics \<Rightarrow> store \<Rightarrow> real \<Rightarrow> real \<Rightarrow> real \<Rightarrow> real \<Rightarrow> real \<Rightarrow> (rayhit \<times> collider) option" where
  "raycast ph st x0 y0 dirX dirY distance =
     raycastLoop st x0 y0 dirX dirY distance (colliders ph) None (Num distance)"

text \<open>
  What \<open>raycastBox\<close> returns for the collider \<open>c\<close> when the loop of \<open>raycast\<close> calls it:
  nothing for an inactive collider and for one that is not a box.
\<close>

definition candidate ::
  "store \<Rightarrow> real \<Rightarrow> real \<Rightarrow> real \<Rightarrow> real \<Rightarrow> real \<Rightarrow> collider \<Rightarrow> rayhit option" where
  "candidate st x0 y0 dirX dirY distance c =
     (if active c
      then (case shape c of
              BoxCollider w h \<Rightarrow> raycastBox x0 y0 dirX dirY distance (getBounds st c w h)
            | _ \<Rightarrow> None)
      else None)"

section \<open>Example inputs\<close>

text \<open>A body as \<open>new RigidBody()\<close> makes it, and a game object as \<open>new GameObject(x, y)\<close> does.\<close>

definition newRigidBody :: rigidbody where
  "newRigidBody =
     \<lparr>velocityX = 0, velocityY = 0, accelerationX = 0, accelerationY = 0,
      forceX = 0, forceY = 0, mass = 1, drag = 1 / 100, gravityScale = 1,
      useGravity = True, isKinematic = False,
      maxVelocityX = Infinity, maxVelocityY = Infinity,
      isGrounded = False, isTouchingWall = False\<rparr>"

definition newGameObject :: "real \<Rightarrow> real \<Rightarrow> gameobject" where
  "newGameObject gx gy = \<lparr>name = [], go_active = True, go_x = gx, go_y = gy, body = None\<rparr>"

text \<open>A box collider as \<open>new BoxCollider(w, h)\<close> makes it, attached to the game object at \<open>g\<close>.\<close>

definition newBoxCollider :: "nat \<Rightarrow> nat \<Rightarrow> real \<Rightarrow> real \<Rightarrow> collider" where
  "newBoxCollider i g w h =
     \<lparr>cid = i, gameObject = g, active = True, isTrigger = False,
      offset_x = 0, offset_y = 0, shape = BoxCollider w h\<rparr>"

text \<open>
  Two 10 by 10 boxes with bodies, centred at (5, 5) and (11, 5): bounds
  \<open>{x:0, y:0}\<close> and \<open>{x:6, y:0}\<close>.
\<close>

definition side_store :: store where
  "side_store =
     (\<lambda>_. newGameObject 0 0)
       (0 := (newGameObject 5 5)\<lparr>body := Some (newRigidBody\<lparr>velocityX := 3\<rparr>)\<rparr>,
        1 := (newGameObject 11 5)\<lparr>body := Some (newRigidBody\<lparr>velocityX := - 3\<rparr>)\<rparr>)"

text \<open>The same boxes centred at (5, 5) and (11, 11): both overlaps are 4.\<close>

definition tie_store :: store where
  "tie_store =
     (\<lambda>_. newGameObject 0 0)
       (0 := (newGameObject 5 5)\<lparr>body := Some newRigidBody\<rparr>,
        1 := (newGameObject 11 11)\<lparr>body := Some newRigidBody\<rparr>)"

text \<open>A kinematic floor under a body.\<close>

definition floor_store :: store where
  "floor_store =
     (\<lambda>_. newGameObject 0 0)
       (0 := (newGameObject 5 5)\<lparr>body := Some newRigidBody\<rparr>,
        1 := (newGameObject 5 14)\<lparr>body := Some (newRigidBody\<lparr>isKinematic := True\<rparr>)\<rparr>)"

definition box_a :: collider where
  "box_a = newBoxCollider 0 0 10 10"

definition box_b :: collider where
  "box_b = newBoxCollider 1 1 10 10"

text \<open>
  The core and timing state of an engine as \<open>new Engine(config)\<close> makes it, and the
  state that \<open>setScene\<close> and then \<open>start()\<close> at time 0 leave: running, with a current
  scene, and with the first frame (of zero elapsed time) already counted.
\<close>

definition newEngine :: engine where
  "newEngine =
     \<lparr>isRunning = False, isPaused = False, hasScene = False, lastTime = 0, deltaTime = 0,
      fixedDeltaTime = fdiv 1 60, accumulator = 0, fps = 0, frameCount = 0, fpsTime = 0\<rparr>"

definition startedEngine :: engine where
  "startedEngine =
     \<lparr>isRunning = True, isPaused = False, hasScene = True, lastTime = 0, deltaTime = 0,
      fixedDeltaTime = fdiv 1 60, accumulator = 0, fps = 0, frameCount = 1, fpsTime = 0\<rparr>"

text \<open>A body with gravity enabled on a game object, and a physics world with the default gravity.\<close>

definition falling :: gameobject where
  "falling = (newGameObject 0 0)\<lparr>body := Some newRigidBody\<rparr>"

definition newPhysics :: physics where
  "newPhysics = \<lparr>gravity = 980, colliders = [], collisionMatrix = []\<rparr>"

text \<open>A third box, and a 10 by 10 box with bounds \<open>{x:50, y:-5}\<close> for the ray.\<close>

definition box_c :: collider where
  "box_c = newBoxCollider 2 2 10 10"

definition ray_store :: store where
  "ray_store = (\<lambda>_. newGameObject 0 0)(2 := newGameObject 55 0)"

text \<open>The same box behind the origin: bounds \<open>{x:-50, y:-5}\<close>.\<close>

definition behind_store :: store where
  "behind_store = (\<lambda>_. newGameObject 0 0)(2 := newGameObject (- 45) 0)"

definition ray_world :: physics where
  "ray_world = newPhysics\<lparr>colliders := [box_c]\<rparr>"

text \<open>
  Three overlapping boxes without bodies whose game objects are named \<open>player\<close>,
  \<open>enemy\<close> and \<open>enemy\<close>.
\<close>

definition named_store :: store where
  "named_store =
     (\<lambda>_. newGameObject 0 0)
       (0 := (newGameObject 0 0)\<lparr>name := ''player''\<rparr>,
        1 := (newGameObject 6 0)\<lparr>name := ''enemy''\<rparr>,
        2 := (newGameObject 0 6)\<lparr>name := ''enemy''\<rparr>)"

text \<open>Two overlapping boxes; the game object of the second is inactive, its collider is not.\<close>

definition idle_store :: store where
  "idle_store =
     (\<lambda>_. newGameObject 0 0)
       (0 := newGameObject 5 5,
        1 := (newGameObject 11 5)\<lparr>go_active := False\<rparr>)"

text \<open>
  Three unnamed boxes in a row without bodies: the first overlaps the second, the second
  the third, the first and the third are apart.
\<close>

definition chain_store :: store where
  "chain_store =
     (\<lambda>_. newGameObject 0 0)
       (0 := newGameObject 5 5, 1 := newGameObject 11 5, 2 := newGameObject 17 5)"

definition world2 :: physics where
  "world2 = newPhysics\<lparr>colliders := [box_a, box_b]\<rparr>"

definition world3 :: physics where
  "world3 = newPhysics\<lparr>colliders := [box_a, box_b, box_c]\<rparr>"

text \<open>The table that a detection pass over \<open>world3\<close> and \<open>chain_store\<close> leaves.\<close>

definition contact3 :: physics where
  "contact3 = world3\<lparr>collisionMatrix := [(''0-1'', box_a, box_b), (''1-2'', box_b, box_c)]\<rparr>"

text \<open>
  Ticks for the first two boxes alone: overlapping (centres at 5 and 11), and apart
  (centres at 5 and 30).
\<close>

definition apart_store :: store where
  "apart_store = (\<lambda>_. newGameObject 0 0)(0 := newGameObject 5 5, 1 := newGameObject 30 5)"

definition touch_tick :: "collider list \<times> store" where
  "touch_tick = ([box_a, box_b], chain_store)"

definition apart_tick :: "collider list \<times> store" where
  "apart_tick = ([box_a, box_b], apart_store)"

text \<open>
  A far-away box whose game object is named \<open>z\<close>, registered before the two
  overlapping unnamed boxes, and the same world after \<open>removeCollider\<close> of that box.
\<close>

definition box_z :: collider where
  "box_z = newBoxCollider 3 3 10 10"

definition zoo_store :: store where
  "zoo_store = chain_store(3 := (newGameObject 100 100)\<lparr>name := ''z''\<rparr>)"

definition crowd_tick :: "collider list \<times> store" where
  "crowd_tick = ([box_z, box_a, box_b], zoo_store)"

definition thinned_tick :: "collider list \<times> store" where
  "thinned_tick =
     (colliders (removeCollider box_z (newPhysics\<lparr>colliders := [box_z, box_a, box_b]\<rparr>)), zoo_store)"

section \<open>Resolver: what is left unchanged\<close>

lemma movable_cases: "(\<not> movable rb) = (rb = None \<or> kinematic rb)"
  by (cases rb) (simp_all add: movable_def kinematic_def)

lemma resolveHorizontal_fixed_a:
  "\<not> movable (rigidBodyOf st a) \<Longrightarrow>
   resolveHorizontal st a b boundsA boundsB (gameObject a) = st (gameObject a)"
  by (auto simp: resolveHorizontal_def Let_def pushX_def rigidBodyOf_def)

lemma resolveHorizontal_fixed_b:
  "\<not> movable (rigidBodyOf st b) \<Longrightarrow>
   resolveHorizontal st a b boundsA boundsB (gameObject b) = st (gameObject b)"
  by (auto simp: resolveHorizontal_def Let_def pushX_def rigidBodyOf_def movable_def
      split: option.splits)

lemma resolveVertical_fixed_a:
  "\<not> movable (rigidBodyOf st a) \<Longrightarrow>
   resolveVertical st a b boundsA boundsB (gameObject a) = st (gameObject a)"
  by (auto simp: resolveVertical_def Let_def pushY_def rigidBodyOf_def)

lemma resolveVertical_fixed_b:
  "\<not> movable (rigidBodyOf st b) \<Longrightarrow>
   resolveVertical st a b boundsA boundsB (gameObject b) = st (gameObject b)"
  by (auto simp: resolveVertical_def Let_def pushY_def rigidBodyOf_def movable_def
      split: option.splits)

lemma resolveCollision_fixed_a:
  "\<not> movable (rigidBodyOf st a) \<Longrightarrow> resolveCollision st a b (gameObject a) = st (gameObject a)"
  by (simp add: resolveCollision_def Let_def resolveHorizontal_fixed_a resolveVertical_fixed_a
      split: option.splits)

lemma resolveCollision_fixed_b:
  "\<not> movable (rigidBodyOf st b) \<Longrightarrow> resolveCollision st a b (gameObject b) = st (gameObject b)"
  by (simp add: resolveCollision_def Let_def resolveHorizontal_fixed_b resolveVertical_fixed_b
      split: option.splits)

lemma resolveCollision_skip:
  "(rigidBodyOf st a = None \<and> rigidBodyOf st b = None) \<or>
   (kinematic (rigidBodyOf st a) \<and> kinematic (rigidBodyOf st b)) \<Longrightarrow>
   resolveCollision st a b = st"
  by (simp add: resolveCollision_def Let_def)

text \<open>
  C6. A side of the pair whose game object has no rigid body, or a kinematic one, keeps
  its game object as it was: position, name, flags and the whole body (velocity,
  \<open>isGrounded\<close>, \<open>isTouchingWall\<close> and the rest). This also holds when both colliders
  hang on the same game object. When both bodies are absent, or both are kinematic, the
  store is returned as it was.
\<close>

theorem resolveCollision_immovable_unchanged:
  "(rigidBodyOf st a = None \<or> kinematic (rigidBodyOf st a) \<longrightarrow>
      resolveCollision st a b (gameObject a) = st (gameObject a)) \<and>
   (rigidBodyOf st b = None \<or> kinematic (rigidBodyOf st b) \<longrightarrow>
      resolveCollision st a b (gameObject b) = st (gameObject b)) \<and>
   ((rigidBodyOf st a = None \<and> rigidBodyOf st b = None) \<or>
    (kinematic (rigidBodyOf st a) \<and> kinematic (rigidBodyOf st b)) \<longrightarrow>
      resolveCollision st a b = st)"
  using resolveCollision_fixed_a [of st a b] resolveCollision_fixed_b [of st b a]
    resolveCollision_skip [of st a b]
  by (simp only: movable_cases) blast

theorem resolveCollision_immovable_unchanged_witness:
  "kinematic (rigidBodyOf floor_store box_b) \<and>
   resolveCollision floor_store box_a box_b (gameObject box_b) = floor_store (gameObject box_b) \<and>
   resolveCollision floor_store box_a box_b (gameObject box_a) \<noteq> floor_store (gameObject box_a) \<and>
   kinematic (rigidBodyOf floor_store box_b) \<and>
   resolveCollision floor_store box_b box_a (gameObject box_b) = floor_store (gameObject box_b) \<and>
   rigidBodyOf (\<lambda>_. newGameObject 0 0) box_a = None \<and>
   rigidBodyOf (\<lambda>_. newGameObject 0 0) box_b = None \<and>
   resolveCollision (\<lambda>_. newGameObject 0 0) box_a box_b = (\<lambda>_. newGameObject 0 0)"
proof -
  have k: "kinematic (rigidBodyOf floor_store box_b)"
    by (simp add: kinematic_def rigidBodyOf_def floor_store_def box_b_def newBoxCollider_def
        newGameObject_def newRigidBody_def)
  have n: "rigidBodyOf (\<lambda>_. newGameObject 0 0) box_a = None"
    "rigidBodyOf (\<lambda>_. newGameObject 0 0) box_b = None"
    by (simp_all add: rigidBodyOf_def newGameObject_def)
  have moved: "resolveCollision floor_store box_a box_b (gameObject box_a)
                 \<noteq> floor_store (gameObject box_a)"
    by (simp add: resolveCollision_def Let_def resolveVertical_def pushY_def rigidBodyOf_def
        movable_def kinematic_def overlapX_def overlapY_def boxBounds_def getBounds_def
        getWorldPosition_def floor_store_def box_a_def box_b_def newBoxCollider_def
        newGameObject_def newRigidBody_def)
  show ?thesis
    using k n moved
      resolveCollision_immovable_unchanged [of floor_store box_a box_b]
      resolveCollision_immovable_unchanged [of floor_store box_b box_a]
      resolveCollision_immovable_unchanged [of "\<lambda>_. newGameObject 0 0" box_a box_b]
    by simp
qed

section \<open>Resolver: the two branches\<close>

text \<open>
  C4. Boxes with bounds \<open>{x:0, y:0, w:10, h:10}\<close> and \<open>{x:6, y:0, w:10, h:10}\<close> on two
  different game objects, each with a non-kinematic body: the pair is resolved
  horizontally, each game object moving by half of the overlap 4 and neither moving
  vertically. Afterwards the left edges are at -2 (at most 0) and 8 (at least 6), the
  gap between the boxes is at least 0, and both horizontal velocities are 0.
\<close>

theorem resolveCollision_side_by_side:
  assumes "boxBounds st a = Some \<lparr>bnd_x = 0, bnd_y = 0, bnd_width = 10, bnd_height = 10\<rparr>"
    and "boxBounds st b = Some \<lparr>bnd_x = 6, bnd_y = 0, bnd_width = 10, bnd_height = 10\<rparr>"
    and "rigidBodyOf st a = Some ra" and "\<not> isKinematic ra"
    and "rigidBodyOf st b = Some rb" and "\<not> isKinematic rb"
    and "gameObject a \<noteq> gameObject b"
  shows "(let st' = resolveCollision st a b in
          go_x (st' (gameObject a)) = go_x (st (gameObject a)) - 2 \<and>
          go_x (st' (gameObject b)) = go_x (st (gameObject b)) + 2 \<and>
          go_y (st' (gameObject a)) = go_y (st (gameObject a)) \<and>
          go_y (st' (gameObject b)) = go_y (st (gameObject b)) \<and>
          (\<exists>boundsA boundsB.
             boxBounds st' a = Some boundsA \<and> boxBounds st' b = Some boundsB \<and>
             bnd_x boundsA = - 2 \<and> bnd_x boundsA \<le> 0 \<and>
             bnd_x boundsB = 8 \<and> bnd_x boundsB \<ge> 6 \<and>
             bnd_x boundsB - (bnd_x boundsA + bnd_width boundsA) \<ge> 0) \<and>
          map_option velocityX (rigidBodyOf st' a) = Some 0 \<and>
          map_option velocityX (rigidBodyOf st' b) = Some 0)"
  using assms
  by (auto simp: resolveCollision_def Let_def resolveHorizontal_def pushX_def rigidBodyOf_def
        movable_def kinematic_def overlapX_def overlapY_def boxBounds_def getBounds_def
        getWorldPosition_def split: shape.splits)

theorem resolveCollision_side_by_side_witness:
  "go_x (resolveCollision side_store box_a box_b 0) = 3 \<and>
   go_x (resolveCollision side_store box_a box_b 1) = 13 \<and>
   map_option velocityX (rigidBodyOf side_store box_a) = Some 3 \<and>
   map_option velocityX (rigidBodyOf (resolveCollision side_store box_a box_b) box_a) = Some 0 \<and>
   map_option velocityX (rigidBodyOf (resolveCollision side_store box_a box_b) box_b) = Some 0"
proof -
  have h: "boxBounds side_store box_a
             = Some \<lparr>bnd_x = 0, bnd_y = 0, bnd_width = 10, bnd_height = 10\<rparr>"
    "boxBounds side_store box_b
             = Some \<lparr>bnd_x = 6, bnd_y = 0, bnd_width = 10, bnd_height = 10\<rparr>"
    "rigidBodyOf side_store box_a = Some (newRigidBody\<lparr>velocityX := 3\<rparr>)"
    "\<not> isKinematic (newRigidBody\<lparr>velocityX := 3\<rparr>)"
    "rigidBodyOf side_store box_b = Some (newRigidBody\<lparr>velocityX := - 3\<rparr>)"
    "\<not> isKinematic (newRigidBody\<lparr>velocityX := - 3\<rparr>)"
    "gameObject box_a \<noteq> gameObject box_b"
    by (simp_all add: boxBounds_def getBounds_def getWorldPosition_def rigidBodyOf_def
        side_store_def box_a_def box_b_def newBoxCollider_def newGameObject_def newRigidBody_def)
  have g: "gameObject box_a = 0" "gameObject box_b = 1"
    "go_x (side_store 0) = 5" "go_x (side_store 1) = 11"
    by (simp_all add: side_store_def box_a_def box_b_def newBoxCollider_def newGameObject_def)
  show ?thesis
    using resolveCollision_side_by_side [OF h] g h(3) by (simp add: Let_def)
qed

text \<open>
  C5, as the code has it. A box pair with at least one movable body whose horizontal and
  vertical overlaps are equal is resolved by the vertical branch (the test is
  \<open>overlapX < overlapY\<close>, and the tie falls to its \<open>else\<close>): no game object changes its
  horizontal position or horizontal velocity.
\<close>

theorem resolveCollision_tie_vertical:
  assumes "boxBounds st a = Some boundsA" and "boxBounds st b = Some boundsB"
    and "movable (rigidBodyOf st a) \<or> movable (rigidBodyOf st b)"
    and "overlapX boundsA boundsB = overlapY boundsA boundsB"
  shows "resolveCollision st a b = resolveVertical st a b boundsA boundsB \<and>
         go_x (resolveCollision st a b g) = go_x (st g) \<and>
         map_option velocityX (body (resolveCollision st a b g))
           = map_option velocityX (body (st g))"
proof -
  have "\<not> ((rigidBodyOf st a = None \<and> rigidBodyOf st b = None) \<or>
            (kinematic (rigidBodyOf st a) \<and> kinematic (rigidBodyOf st b)))"
    using assms(3) by (auto simp: movable_def kinematic_def split: option.splits)
  then have eq: "resolveCollision st a b = resolveVertical st a b boundsA boundsB"
    using assms(1,2,4) by (auto simp: resolveCollision_def Let_def)
  have "go_x (resolveVertical st a b boundsA boundsB g) = go_x (st g)"
    by (simp add: resolveVertical_def Let_def pushY_def)
  moreover have "map_option velocityX (body (resolveVertical st a b boundsA boundsB g))
                   = map_option velocityX (body (st g))"
    by (simp add: resolveVertical_def Let_def pushY_def option.map_comp comp_def)
  ultimately show ?thesis using eq by simp
qed

theorem resolveCollision_tie_vertical_witness:
  "overlapX \<lparr>bnd_x = 0, bnd_y = 0, bnd_width = 10, bnd_height = 10\<rparr>
            \<lparr>bnd_x = 6, bnd_y = 6, bnd_width = 10, bnd_height = 10\<rparr> = 4 \<and>
   overlapY \<lparr>bnd_x = 0, bnd_y = 0, bnd_width = 10, bnd_height = 10\<rparr>
            \<lparr>bnd_x = 6, bnd_y = 6, bnd_width = 10, bnd_height = 10\<rparr> = 4 \<and>
   resolveCollision tie_store box_a box_b
     = resolveVertical tie_store box_a box_b
         \<lparr>bnd_x = 0, bnd_y = 0, bnd_width = 10, bnd_height = 10\<rparr>
         \<lparr>bnd_x = 6, bnd_y = 6, bnd_width = 10, bnd_height = 10\<rparr> \<and>
   go_x (resolveCollision tie_store box_a box_b 0) = 5"
proof -
  have h: "boxBounds tie_store box_a
             = Some \<lparr>bnd_x = 0, bnd_y = 0, bnd_width = 10, bnd_height = 10\<rparr>"
    "boxBounds tie_store box_b
             = Some \<lparr>bnd_x = 6, bnd_y = 6, bnd_width = 10, bnd_height = 10\<rparr>"
    "movable (rigidBodyOf tie_store box_a) \<or> movable (rigidBodyOf tie_store box_b)"
    "overlapX \<lparr>bnd_x = 0, bnd_y = 0, bnd_width = 10, bnd_height = 10\<rparr>
              \<lparr>bnd_x = 6, bnd_y = 6, bnd_width = 10, bnd_height = 10\<rparr>
       = overlapY \<lparr>bnd_x = 0, bnd_y = 0, bnd_width = 10, bnd_height = 10\<rparr>
              \<lparr>bnd_x = 6, bnd_y = 6, bnd_width = 10, bnd_height = 10\<rparr>"
    by (simp_all add: boxBounds_def getBounds_def getWorldPosition_def rigidBodyOf_def
        movable_def overlapX_def overlapY_def tie_store_def box_a_def box_b_def
        newBoxCollider_def newGameObject_def newRigidBody_def)
  have v: "overlapX \<lparr>bnd_x = 0, bnd_y = 0, bnd_width = 10, bnd_height = 10\<rparr>
              \<lparr>bnd_x = 6, bnd_y = 6, bnd_width = 10, bnd_height = 10\<rparr> = 4"
    "overlapY \<lparr>bnd_x = 0, bnd_y = 0, bnd_width = 10, bnd_height = 10\<rparr>
              \<lparr>bnd_x = 6, bnd_y = 6, bnd_width = 10, bnd_height = 10\<rparr> = 4"
    by (simp_all add: overlapX_def overlapY_def)
  have s: "go_x (tie_store 0) = 5"
    by (simp add: tie_store_def newGameObject_def)
  note t = resolveCollision_tie_vertical [OF h, of 0]
  have "go_x (resolveCollision tie_store box_a box_b 0) = go_x (tie_store 0)"
    using t by (elim conjE)
  then have "go_x (resolveCollision tie_store box_a box_b 0) = 5"
    using s by (simp only:)
  then show ?thesis
    using t v by blast
qed

text \<open>
  C5, as the claim has it, fails: for the boxes with bounds \<open>{x:0, y:0}\<close> and
  \<open>{x:6, y:6}\<close> (10 by 10, both overlaps 4) the result is not that of the horizontal
  branch; the first game object keeps x = 5 and moves from y = 5 to y = 3.
\<close>

theorem resolveCollision_tie_horizontal_counterexample:
  "boxBounds tie_store box_a = Some \<lparr>bnd_x = 0, bnd_y = 0, bnd_width = 10, bnd_height = 10\<rparr> \<and>
   boxBounds tie_store box_b = Some \<lparr>bnd_x = 6, bnd_y = 6, bnd_width = 10, bnd_height = 10\<rparr> \<and>
   movable (rigidBodyOf tie_store box_a) \<and> movable (rigidBodyOf tie_store box_b) \<and>
   overlapX \<lparr>bnd_x = 0, bnd_y = 0, bnd_width = 10, bnd_height = 10\<rparr>
            \<lparr>bnd_x = 6, bnd_y = 6, bnd_width = 10, bnd_height = 10\<rparr>
     = overlapY \<lparr>bnd_x = 0, bnd_y = 0, bnd_width = 10, bnd_height = 10\<rparr>
            \<lparr>bnd_x = 6, bnd_y = 6, bnd_width = 10, bnd_height = 10\<rparr> \<and>
   resolveCollision tie_store box_a box_b
     \<noteq> resolveHorizontal tie_store box_a box_b
         \<lparr>bnd_x = 0, bnd_y = 0, bnd_width = 10, bnd_height = 10\<rparr>
         \<lparr>bnd_x = 6, bnd_y = 6, bnd_width = 10, bnd_height = 10\<rparr> \<and>
   go_x (resolveCollision tie_store box_a box_b 0) = 5 \<and>
   go_y (resolveCollision tie_store box_a box_b 0) = 3 \<and>
   go_x (resolveHorizontal tie_store box_a box_b
         \<lparr>bnd_x = 0, bnd_y = 0, bnd_width = 10, bnd_height = 10\<rparr>
         \<lparr>bnd_x = 6, bnd_y = 6, bnd_width = 10, bnd_height = 10\<rparr> 0) = 3"
proof -
  have c: "go_x (resolveCollision tie_store box_a box_b 0) = 5"
    "go_y (resolveCollision tie_store box_a box_b 0) = 3"
    by (simp_all add: resolveCollision_def Let_def resolveVertical_def pushY_def rigidBodyOf_def
        movable_def kinematic_def overlapX_def overlapY_def boxBounds_def getBounds_def
        getWorldPosition_def tie_store_def box_a_def box_b_def newBoxCollider_def
        newGameObject_def newRigidBody_def)
  have h: "go_x (resolveHorizontal tie_store box_a box_b
         \<lparr>bnd_x = 0, bnd_y = 0, bnd_width = 10, bnd_height = 10\<rparr>
         \<lparr>bnd_x = 6, bnd_y = 6, bnd_width = 10, bnd_height = 10\<rparr> 0) = 3"
    by (simp add: resolveHorizontal_def Let_def pushX_def rigidBodyOf_def
        movable_def overlapX_def tie_store_def box_a_def box_b_def newBoxCollider_def
        newGameObject_def newRigidBody_def)
  have ne: "resolveCollision tie_store box_a box_b
     \<noteq> resolveHorizontal tie_store box_a box_b
         \<lparr>bnd_x = 0, bnd_y = 0, bnd_width = 10, bnd_height = 10\<rparr>
         \<lparr>bnd_x = 6, bnd_y = 6, bnd_width = 10, bnd_height = 10\<rparr>"
    using c(1) h by auto
  have b: "boxBounds tie_store box_a
             = Some \<lparr>bnd_x = 0, bnd_y = 0, bnd_width = 10, bnd_height = 10\<rparr>"
    "boxBounds tie_store box_b
             = Some \<lparr>bnd_x = 6, bnd_y = 6, bnd_width = 10, bnd_height = 10\<rparr>"
    "movable (rigidBodyOf tie_store box_a)" "movable (rigidBodyOf tie_store box_b)"
    "overlapX \<lparr>bnd_x = 0, bnd_y = 0, bnd_width = 10, bnd_height = 10\<rparr>
              \<lparr>bnd_x = 6, bnd_y = 6, bnd_width = 10, bnd_height = 10\<rparr>
       = overlapY \<lparr>bnd_x = 0, bnd_y = 0, bnd_width = 10, bnd_height = 10\<rparr>
              \<lparr>bnd_x = 6, bnd_y = 6, bnd_width = 10, bnd_height = 10\<rparr>"
    by (simp_all add: boxBounds_def getBounds_def getWorldPosition_def rigidBodyOf_def
        movable_def overlapX_def overlapY_def tie_store_def box_a_def box_b_def
        newBoxCollider_def newGameObject_def newRigidBody_def)
  show ?thesis using b c h ne by simp
qed

section \<open>Body integration: one step\<close>

text \<open>
  C1, as the code has it. For a game object whose body has a non-zero mass: a kinematic
  body leaves the game object as it was. Otherwise one step adds the gravity term
  \<open>gravity * gravityScale\<close> to the vertical acceleration when \<open>useGravity\<close> is set and the
  scene has a physics world (and nothing when the scene has none), adds force / mass,
  adds acceleration * dt to the velocity, multiplies the velocity by \<open>1 - drag\<close>, clamps
  it, moves the position by the clamped velocity * dt, and leaves force and
  acceleration at zero; every other field is as before.
\<close>

theorem fixedUpdate_steps:
  assumes "body go = Some rb" and "mass rb \<noteq> 0"
  shows "(isKinematic rb \<longrightarrow> fixedUpdate scenePhysics dt go = go) \<and>
         (\<not> isKinematic rb \<longrightarrow>
            (let g = (case scenePhysics of
                        Some ph \<Rightarrow> if useGravity rb then gravity ph * gravityScale rb else 0
                      | None \<Rightarrow> 0);
                 ax = accelerationX rb + forceX rb / mass rb;
                 ay = accelerationY rb + g + forceY rb / mass rb;
                 vx = clamp (maxVelocityX rb) ((velocityX rb + ax * dt) * (1 - drag rb));
                 vy = clamp (maxVelocityY rb) ((velocityY rb + ay * dt) * (1 - drag rb))
             in fixedUpdate scenePhysics dt go =
                  go\<lparr>go_x := go_x go + vx * dt, go_y := go_y go + vy * dt,
                     body := Some (rb\<lparr>velocityX := vx, velocityY := vy,
                                      accelerationX := 0, accelerationY := 0,
                                      forceX := 0, forceY := 0\<rparr>)\<rparr>))"
  using assms by (cases scenePhysics) (simp_all add: fixedUpdate_def Let_def)

theorem fixedUpdate_steps_witness:
  "body falling = Some newRigidBody \<and> mass newRigidBody \<noteq> 0 \<and> \<not> isKinematic newRigidBody \<and>
   fixedUpdate (Some newPhysics) (1 / 60) falling
     = falling\<lparr>go_y := 539 / 2000, body := Some (newRigidBody\<lparr>velocityY := 1617 / 100\<rparr>)\<rparr> \<and>
   body (falling\<lparr>body := Some (newRigidBody\<lparr>isKinematic := True\<rparr>)\<rparr>)
     = Some (newRigidBody\<lparr>isKinematic := True\<rparr>) \<and>
   isKinematic (newRigidBody\<lparr>isKinematic := True\<rparr>) \<and>
   fixedUpdate (Some newPhysics) (1 / 60)
       (falling\<lparr>body := Some (newRigidBody\<lparr>isKinematic := True\<rparr>)\<rparr>)
     = falling\<lparr>body := Some (newRigidBody\<lparr>isKinematic := True\<rparr>)\<rparr>"
proof -
  have h: "body falling = Some newRigidBody" "mass newRigidBody \<noteq> 0"
    by (simp_all add: falling_def newRigidBody_def)
  have k: "body (falling\<lparr>body := Some (newRigidBody\<lparr>isKinematic := True\<rparr>)\<rparr>)
             = Some (newRigidBody\<lparr>isKinematic := True\<rparr>)"
    "mass (newRigidBody\<lparr>isKinematic := True\<rparr>) \<noteq> 0"
    by (simp_all add: newRigidBody_def)
  show ?thesis
    using fixedUpdate_steps [OF h, of "Some newPhysics" "1 / 60"]
      fixedUpdate_steps [OF k, of "Some newPhysics" "1 / 60"]
    by (simp add: Let_def falling_def newRigidBody_def newPhysics_def newGameObject_def)
qed

text \<open>
  C1, as the claim has it, fails: a body with \<open>useGravity\<close> set and gravity scale 1, at
  rest in a scene that has no physics world, is not accelerated at all; the step leaves
  the game object as it was.
\<close>

theorem fixedUpdate_no_physics_counterexample:
  "body falling = Some newRigidBody \<and> useGravity newRigidBody \<and> \<not> isKinematic newRigidBody \<and>
   gravityScale newRigidBody = 1 \<and> fixedUpdate None (1 / 60) falling = falling"
  by (simp add: fixedUpdate_def Let_def falling_def newRigidBody_def newGameObject_def)

section \<open>Scheduler: rounding\<close>

text \<open>
  Rounding moves a number by at most half the distance between neighbouring doubles and
  keeps its sign; \<open>fl_eq\<close> evaluates it on a number whose binary exponent is known.
\<close>

lemma rne_error: "\<bar>of_int (rne y) - y\<bar> \<le> 1 / 2"
  unfolding rne_def Let_def by (auto simp: abs_le_iff)

lemma quantum_pos: "0 < quantum x"
  unfolding quantum_def by (rule zero_less_power_int) simp

lemma fl_error: "\<bar>fl x - x\<bar> \<le> quantum x / 2"
proof (cases "x = 0")
  case True
  then show ?thesis using quantum_pos [of x] by (simp add: fl_def)
next
  case False
  define q where "q = quantum x"
  have q: "0 < q" unfolding q_def by (rule quantum_pos)
  have "fl x - x = (of_int (rne (x / q)) - x / q) * q"
    using False q by (simp add: fl_def q_def field_simps)
  then have "\<bar>fl x - x\<bar> = \<bar>of_int (rne (x / q)) - x / q\<bar> * q"
    using q by (simp add: abs_mult)
  also have "\<dots> \<le> 1 / 2 * q"
    using rne_error [of "x / q"] q by (intro mult_right_mono) simp_all
  finally show ?thesis by (simp add: q_def)
qed

lemma expo_log: "0 < x \<Longrightarrow> expo x = \<lfloor>log 2 x\<rfloor>"
proof (induction x rule: expo.induct)
  case (1 x)
  show ?case
  proof (cases "2 \<le> x")
    case True
    have "log 2 (x / 2) = log 2 x - 1" using True by (simp add: log_divide)
    then have "\<lfloor>log 2 (x / 2)\<rfloor> = \<lfloor>log 2 x\<rfloor> - 1" by simp
    moreover have "expo (x / 2) = \<lfloor>log 2 (x / 2)\<rfloor>"
      using 1(1) True 1(3) by simp
    moreover have "expo x = expo (x / 2) + 1"
      using True 1(3) by (subst expo.simps) simp
    ultimately show ?thesis by simp
  next
    case False
    show ?thesis
    proof (cases "x < 1")
      case True
      have "log 2 (x * 2) = log 2 x + 1" using 1(3) by (simp add: log_mult)
      then have "\<lfloor>log 2 (x * 2)\<rfloor> = \<lfloor>log 2 x\<rfloor> + 1" by simp
      moreover have "expo (x * 2) = \<lfloor>log 2 (x * 2)\<rfloor>"
        using 1(2) True False 1(3) by simp
      moreover have "expo x = expo (x * 2) - 1"
        using True False 1(3) by (subst expo.simps) simp
      ultimately show ?thesis by simp
    next
      case n: False
      have "0 \<le> log 2 x" using n by simp
      moreover have "log 2 x < 1" using False 1(3) by (simp add: log_less_iff)
      ultimately have "\<lfloor>log 2 x\<rfloor> = 0" by (simp add: floor_eq_iff)
      moreover have "expo x = 0" using n False 1(3) by (subst expo.simps) simp
      ultimately show ?thesis by simp
    qed
  qed
qed

lemma quantum_log:
  "x \<noteq> 0 \<Longrightarrow> quantum x = 2 powi (max \<lfloor>log 2 \<bar>x\<bar>\<rfloor> (- 1022) - 52)"
  unfolding quantum_def by (subst expo_log) simp_all

lemma floor_log2_eq:
  assumes "2 powi e \<le> \<bar>x\<bar>" and "\<bar>x\<bar> < 2 powi (e + 1)"
  shows "\<lfloor>log 2 \<bar>x\<bar>\<rfloor> = e"
proof -
  have pos: "0 < \<bar>x\<bar>"
    using assms(1) zero_less_power_int [of "2::real" e] by linarith
  have 1: "2 powr (of_int e) \<le> \<bar>x\<bar>"
    using assms(1) by (simp add: powr_real_of_int')
  have "2 powr (of_int (e + 1)) = (2::real) powi (e + 1)"
    by (rule powr_real_of_int') simp_all
  then have 2: "\<bar>x\<bar> < 2 powr (of_int (e + 1))"
    using assms(2) by (simp only:)
  have "of_int e \<le> log 2 \<bar>x\<bar>"
    using 1 pos le_log_iff [of 2 "\<bar>x\<bar>" "of_int e"] by simp
  moreover have "log 2 \<bar>x\<bar> < of_int e + 1"
    using 2 pos log_less_iff [of 2 "\<bar>x\<bar>" "of_int (e + 1)"] by simp
  ultimately show ?thesis by (simp add: floor_eq_iff)
qed

lemma power_floor_log2:
  assumes "x \<noteq> 0"
  shows "2 powi \<lfloor>log 2 \<bar>x\<bar>\<rfloor> \<le> \<bar>x\<bar>"
proof -
  have pos: "0 < \<bar>x\<bar>" using assms by simp
  have "of_int \<lfloor>log 2 \<bar>x\<bar>\<rfloor> \<le> log 2 \<bar>x\<bar>" by simp
  then have "2 powr (of_int \<lfloor>log 2 \<bar>x\<bar>\<rfloor>) \<le> \<bar>x\<bar>"
    using pos le_log_iff [of 2 "\<bar>x\<bar>" "of_int \<lfloor>log 2 \<bar>x\<bar>\<rfloor>"] by simp
  then show ?thesis by (simp add: powr_real_of_int')
qed

lemma quantum_le:
  assumes "x \<noteq> 0"
  shows "quantum x \<le> max (\<bar>x\<bar> * 2 powi (- 52)) (2 powi (- 1074))"
proof (cases "\<lfloor>log 2 \<bar>x\<bar>\<rfloor> \<ge> - 1022")
  case True
  then have "quantum x = 2 powi (\<lfloor>log 2 \<bar>x\<bar>\<rfloor> + (- 52))"
    unfolding quantum_log [OF assms] by (simp only: max_absorb1 diff_conv_add_uminus)
  also have "\<dots> = 2 powi \<lfloor>log 2 \<bar>x\<bar>\<rfloor> * 2 powi (- 52)"
    by (rule power_int_add) simp
  also have "\<dots> \<le> \<bar>x\<bar> * 2 powi (- 52)"
    using power_floor_log2 [OF assms] by (intro mult_right_mono zero_le_power_int) simp_all
  finally show ?thesis by (simp only: le_max_iff_disj simp_thms)
next
  case False
  then have "max \<lfloor>log 2 \<bar>x\<bar>\<rfloor> (- 1022) - 52 = - 1074" by (simp add: max_def)
  then have "quantum x = 2 powi (- 1074)"
    unfolding quantum_log [OF assms] by (simp only:)
  then show ?thesis by (simp only: le_max_iff_disj order_refl simp_thms)
qed

lemma fl_eq:
  assumes "2 powi e \<le> \<bar>x\<bar>" and "\<bar>x\<bar> < 2 powi (e + 1)" and "- 1022 \<le> e"
  shows "fl x = of_int (rne (x / 2 powi (e - 52))) * 2 powi (e - 52)"
proof -
  have "0 < (2::real) powi e" by simp
  with assms(1) have "0 < \<bar>x\<bar>" by linarith
  then have x: "x \<noteq> 0" by auto
  have "quantum x = 2 powi (e - 52)"
    unfolding quantum_log [OF x] floor_log2_eq [OF assms(1,2)] using assms(3) by (simp only: max_absorb1)
  with x show ?thesis by (simp only: fl_def if_False)
qed

lemma fsub_decrease:
  assumes "2 powi (- 50) \<le> f" and "f \<le> a" and "a \<le> 2 powi 52 * f"
  shows "fsub a f \<le> a - f / 2"
proof (cases "a - f = 0")
  case True
  then show ?thesis using assms(1) zero_less_power_int [of "2::real" "- 50"]
    by (simp add: fsub_def fl_def)
next
  case False
  have fpos: "0 < f"
    using assms(1) zero_less_power_int [of "2::real" "- 50"] by linarith
  have y: "0 \<le> a - f" using assms(2) by simp
  have "(a - f) * 2 powi (- 52) \<le> a * 2 powi (- 52)"
    using fpos by (intro mult_right_mono zero_le_power_int) simp_all
  also have "\<dots> \<le> (2 powi 52 * f) * 2 powi (- 52)"
    using assms(3) by (intro mult_right_mono zero_le_power_int) simp_all
  also have "\<dots> = f * (2 powi 52 * 2 powi (- 52))" by (simp only: mult_ac)
  also have "(2::real) powi 52 * 2 powi (- 52) = 2 powi (52 + (- 52))"
    by (rule power_int_add [symmetric]) simp
  finally have 1: "(a - f) * 2 powi (- 52) \<le> f" by simp
  have "(2::real) powi (- 1074) \<le> 2 powi (- 50)"
    by (rule power_int_increasing) simp_all
  then have 2: "2 powi (- 1074) \<le> f" using assms(1) by linarith
  have "quantum (a - f) \<le> max (\<bar>a - f\<bar> * 2 powi (- 52)) (2 powi (- 1074))"
    using False by (rule quantum_le)
  then have "quantum (a - f) \<le> f"
    using 1 2 y by (simp only: abs_of_nonneg max_def split: if_splits)
  then have "fl (a - f) \<le> a - f + f / 2"
    using fl_error [of "a - f"] by linarith
  then show ?thesis by (simp add: fsub_def)
qed

lemma fl_nonneg: "0 \<le> x \<Longrightarrow> 0 \<le> fl x"
  unfolding fl_def using quantum_pos [of x]
  by (auto simp: rne_def Let_def intro!: mult_nonneg_nonneg)

lemma rne_nonpos: "y \<le> 0 \<Longrightarrow> rne y \<le> 0"
proof -
  assume y: "y \<le> 0"
  have f: "of_int \<lfloor>y\<rfloor> \<le> y" by (rule of_int_floor_le)
  have f0: "\<lfloor>y\<rfloor> \<le> 0" using y f by linarith
  have f1: "\<lfloor>y\<rfloor> + 1 \<le> 0" if "\<not> y - of_int \<lfloor>y\<rfloor> < 1 / 2"
  proof -
    from that y have "(of_int \<lfloor>y\<rfloor> :: real) < 0" by linarith
    then have "\<lfloor>y\<rfloor> < 0" by (simp only: of_int_less_0_iff)
    then show ?thesis by linarith
  qed
  show ?thesis
    unfolding rne_def Let_def using f0 f1 by (simp only: split: if_splits) blast
qed

lemma fl_nonpos: "x \<le> 0 \<Longrightarrow> fl x \<le> 0"
proof -
  assume x: "x \<le> 0"
  have q: "0 < quantum x" by (rule quantum_pos)
  then have "x / quantum x \<le> 0" using x by (simp add: field_simps)
  then have "rne (x / quantum x) \<le> 0" by (rule rne_nonpos)
  then have "of_int (rne (x / quantum x)) * quantum x \<le> 0"
    using q by (simp add: mult_le_0_iff)
  then show ?thesis by (simp add: fl_def)
qed

lemma fl_tenth: "fl (1 / 10) = 3602879701896397 / 2 ^ 55"
  by (subst fl_eq [of "- 4"]) (simp_all add: rne_def)

lemma fadd_bound:
  assumes f: "2 powi (- 50) \<le> f" and a: "a < f" and d: "d \<le> fl (1 / 10)"
  shows "fadd a d \<le> 2 powi 52 * f"
proof -
  have fpos: "0 < f"
    using f zero_less_power_int [of "2::real" "- 50"] by linarith
  have p52: "(2::real) powi 52 = 2 powi 51 * 2" 
    by (simp add: power_int_def)
  have "(2::real) powi 51 * 2 powi (- 50) = 2 powi (51 + (- 50))"
    by (rule power_int_add [symmetric]) simp
  then have p1: "(2::real) powi 51 * 2 powi (- 50) = 2" by simp
  have "(2::real) powi 1 \<le> 2 powi 51" by (rule power_int_increasing) simp_all
  then have p51: "(2::real) \<le> 2 powi 51" by simp
  have "2 powi 51 * 2 powi (- 50) \<le> 2 powi 51 * f"
    using f p51 by (intro mult_left_mono) simp_all
  then have h1: "2 \<le> 2 powi 51 * f" using p1 by simp
  have "2 * f \<le> 2 powi 51 * f"
    using p51 fpos by (intro mult_right_mono) simp_all
  then have big: "2 * f + 2 \<le> 2 powi 52 * f"
    using h1 unfolding p52 by (simp add: algebra_simps)
  have d8: "d < 1 / 8" using d unfolding fl_tenth by simp
  show ?thesis
  proof (cases "a + d \<le> 0")
    case True
    then have "fl (a + d) \<le> 0" by (rule fl_nonpos)
    then show ?thesis using big fpos unfolding fadd_def by linarith
  next
    case False
    then have pos: "0 < a + d" by simp
    have e: "\<bar>fl (a + d) - (a + d)\<bar> \<le> quantum (a + d) / 2" by (rule fl_error)
    have "(2::real) powi (- 52) \<le> 2 powi 0" by (rule power_int_increasing) simp_all
    then have s1: "(2::real) powi (- 52) \<le> 1" by simp
    have "(2::real) powi (- 1074) \<le> 2 powi 0" by (rule power_int_increasing) simp_all
    then have s2: "(2::real) powi (- 1074) \<le> 1" by simp
    have "(a + d) * 2 powi (- 52) \<le> (a + d) * 1"
      using s1 pos by (intro mult_left_mono) simp_all
    then have m1: "\<bar>a + d\<bar> * 2 powi (- 52) \<le> (a + d) + 1"
      using pos by (simp only: abs_of_pos mult_1_right)
    have m2: "(2::real) powi (- 1074) \<le> (a + d) + 1" using s2 pos by linarith
    have mx: "max (\<bar>a + d\<bar> * 2 powi (- 52)) (2 powi (- 1074)) \<le> (a + d) + 1"
      using m1 m2 by (rule max.boundedI)
    have "quantum (a + d) \<le> max (\<bar>a + d\<bar> * 2 powi (- 52)) (2 powi (- 1074))"
      using pos by (intro quantum_le) simp
    then have "quantum (a + d) \<le> (a + d) + 1" using mx by linarith
    moreover from e have "fl (a + d) - (a + d) \<le> quantum (a + d) / 2"
      by (simp only: abs_le_iff)
    ultimately have "fl (a + d) \<le> (a + d) + ((a + d) + 1) / 2" by argo
    then show ?thesis using big a d8 fpos unfolding fadd_def by argo
  qed
qed

section \<open>Scheduler: ticks per frame\<close>

lemma tickLoop_stop: "acc < fixed \<Longrightarrow> tickLoop fixed acc ts = Some (acc, ts)"
  by (subst tickLoop.simps) simp

lemma tickLoop_step:
  "fixed \<le> acc \<Longrightarrow> tickLoop fixed acc ts = tickLoop fixed (fsub acc fixed) (ts @ [fixed])"
  by (subst tickLoop.simps) simp

lemma fsub_nonneg: "f \<le> a \<Longrightarrow> 0 \<le> fsub a f"
  unfolding fsub_def by (rule fl_nonneg) simp

text \<open>
  With a tick of at least \<open>2^(-50)\<close> s and an accumulator of at most \<open>2^52\<close> ticks the
  loop ends: every subtraction lowers the accumulator by at least half a tick. It runs
  \<open>n\<close> ticks of length \<open>fixed\<close>, one for each time the accumulator was found to reach
  \<open>fixed\<close>, and returns what the \<open>n\<close> rounded subtractions leave.
\<close>

lemma tickLoop_terminates:
  assumes "2 powi (- 50) \<le> f" and "a \<le> 2 powi 52 * f"
  shows "\<exists>n. tickLoop f a ts = Some (((\<lambda>x. fsub x f) ^^ n) a, ts @ replicate n f) \<and>
             ((\<lambda>x. fsub x f) ^^ n) a < f \<and>
             (\<forall>k<n. f \<le> ((\<lambda>x. fsub x f) ^^ k) a)"
  using assms(2)
proof (induction "nat \<lfloor>2 * a / f\<rfloor>" arbitrary: a ts rule: less_induct)
  case less
  have fpos: "0 < f"
    using assms(1) zero_less_power_int [of "2::real" "- 50"] by linarith
  show ?case
  proof (cases "a < f")
    case True
    then have "tickLoop f a ts = Some (((\<lambda>x. fsub x f) ^^ 0) a, ts @ replicate 0 f)"
      by (simp add: tickLoop_stop)
    with True show ?thesis by (intro exI [of _ 0]) simp
  next
    case False
    then have ge: "f \<le> a" by simp
    define a' where "a' = fsub a f"
    have dec: "a' \<le> a - f / 2"
      unfolding a'_def using assms(1) ge less.prems by (rule fsub_decrease)
    have nn: "0 \<le> a'" unfolding a'_def using ge by (rule fsub_nonneg)
    have bound: "a' \<le> 2 powi 52 * f"
      using dec fpos less.prems by linarith
    have "2 * a' / f \<le> 2 * a / f - 1"
      using dec fpos by (simp add: field_simps)
    moreover have "2 \<le> 2 * a / f" using ge fpos by (simp add: field_simps)
    ultimately have "nat \<lfloor>2 * a' / f\<rfloor> < nat \<lfloor>2 * a / f\<rfloor>"
      by linarith
    from less.hyps [OF this bound, of "ts @ [f]"] obtain n where
      n: "tickLoop f a' (ts @ [f]) = Some (((\<lambda>x. fsub x f) ^^ n) a', (ts @ [f]) @ replicate n f)"
         "((\<lambda>x. fsub x f) ^^ n) a' < f" "\<forall>k<n. f \<le> ((\<lambda>x. fsub x f) ^^ k) a'"
      by blast
    have pw: "((\<lambda>x. fsub x f) ^^ Suc k) a = ((\<lambda>x. fsub x f) ^^ k) a'" for k
      unfolding a'_def by (simp only: funpow_Suc_right comp_apply)
    have 1: "tickLoop f a ts = Some (((\<lambda>x. fsub x f) ^^ Suc n) a, ts @ replicate (Suc n) f)"
      using n(1) ge unfolding pw by (simp add: tickLoop_step a'_def replicate_append_same)
    have 2: "((\<lambda>x. fsub x f) ^^ Suc n) a < f" using n(2) unfolding pw .
    have 3: "\<forall>k<Suc n. f \<le> ((\<lambda>x. fsub x f) ^^ k) a"
    proof (intro allI impI)
      fix k assume "k < Suc n"
      show "f \<le> ((\<lambda>x. fsub x f) ^^ k) a"
      proof (cases k)
        case 0
        then show ?thesis using ge by simp
      next
        case (Suc j)
        then have "j < n" using \<open>k < Suc n\<close> by simp
        then show ?thesis using n(3) unfolding Suc pw by blast
      qed
    qed
    from 1 2 3 show ?thesis by blast
  qed
qed

lemma gameLoop_idle:
  assumes "isRunning e" and "isPaused e \<or> \<not> hasScene e"
  shows "\<exists>fr. gameLoop t e = Some fr \<and> fr_rendered fr \<and> fr_ticks fr = [] \<and>
           fr_update fr = None \<and> accumulator (fr_engine fr) = accumulator e"
  using assms by (auto simp add: gameLoop_def Let_def)

lemma gameLoop_run:
  assumes "isRunning e" and "\<not> isPaused e" and "hasScene e"
    and "d = min (fdiv (fsub t (lastTime e)) 1000) (fl (1 / 10))"
    and "tickLoop (fixedDeltaTime e) (fadd (accumulator e) d) [] = Some (acc, ts)"
  shows "\<exists>fr. gameLoop t e = Some fr \<and> fr_rendered fr \<and> fr_ticks fr = ts \<and>
           fr_update fr = Some d \<and> deltaTime (fr_engine fr) = d \<and>
           accumulator (fr_engine fr) = acc \<and> lastTime (fr_engine fr) = t \<and>
           fixedDeltaTime (fr_engine fr) = fixedDeltaTime e \<and>
           isRunning (fr_engine fr) \<and> \<not> isPaused (fr_engine fr) \<and> hasScene (fr_engine fr)"
  using assms by (simp add: gameLoop_def Let_def)

lemma powi_m50: "(2::real) powi (- 50) = 1 / 2 ^ 50"
  by (simp only: power_int_minus power_int_numeral inverse_eq_divide)

lemma gameLoop_active:
  assumes "isRunning e" and "\<not> isPaused e" and "hasScene e"
    and "1 / 2 ^ 50 \<le> fixedDeltaTime e" and "accumulator e < fixedDeltaTime e"
  shows "\<exists>n fr. gameLoop t e = Some fr \<and> fr_rendered fr \<and>
           deltaTime (fr_engine fr) = min (fdiv (fsub t (lastTime e)) 1000) (fl (1 / 10)) \<and>
           fr_update fr = Some (deltaTime (fr_engine fr)) \<and>
           fr_ticks fr = replicate n (fixedDeltaTime e) \<and>
           accumulator (fr_engine fr)
             = ((\<lambda>a. fsub a (fixedDeltaTime e)) ^^ n)
                 (fadd (accumulator e) (deltaTime (fr_engine fr))) \<and>
           (\<forall>k<n. fixedDeltaTime e
                     \<le> ((\<lambda>a. fsub a (fixedDeltaTime e)) ^^ k)
                          (fadd (accumulator e) (deltaTime (fr_engine fr)))) \<and>
           accumulator (fr_engine fr) < fixedDeltaTime e \<and>
           fixedDeltaTime (fr_engine fr) = fixedDeltaTime e"
proof -
  define d where "d = min (fdiv (fsub t (lastTime e)) 1000) (fl (1 / 10))"
  define f where "f = fixedDeltaTime e"
  define a where "a = fadd (accumulator e) d"
  have f50: "2 powi (- 50) \<le> f"
    using assms(4) unfolding f_def by (simp only: powi_m50)
  have "d \<le> fl (1 / 10)" unfolding d_def by (rule min.cobounded2)
  with f50 assms(5) [folded f_def] have b: "a \<le> 2 powi 52 * f"
    unfolding a_def by (rule fadd_bound)
  have "\<exists>n. tickLoop f a [] = Some (((\<lambda>x. fsub x f) ^^ n) a, [] @ replicate n f) \<and>
             ((\<lambda>x. fsub x f) ^^ n) a < f \<and> (\<forall>k<n. f \<le> ((\<lambda>x. fsub x f) ^^ k) a)"
    using f50 b by (rule tickLoop_terminates)
  then obtain n where n:
    "tickLoop f a [] = Some (((\<lambda>x. fsub x f) ^^ n) a, [] @ replicate n f) \<and>
     ((\<lambda>x. fsub x f) ^^ n) a < f \<and> (\<forall>k<n. f \<le> ((\<lambda>x. fsub x f) ^^ k) a)" ..
  note n1 = n [THEN conjunct1] and n2 = n [THEN conjunct2, THEN conjunct1]
    and n3 = n [THEN conjunct2, THEN conjunct2]
  have "\<exists>fr. gameLoop t e = Some fr \<and> fr_rendered fr \<and>
           fr_ticks fr = [] @ replicate n f \<and>
           fr_update fr = Some d \<and> deltaTime (fr_engine fr) = d \<and>
           accumulator (fr_engine fr) = ((\<lambda>x. fsub x f) ^^ n) a \<and> lastTime (fr_engine fr) = t \<and>
           fixedDeltaTime (fr_engine fr) = fixedDeltaTime e \<and>
           isRunning (fr_engine fr) \<and> \<not> isPaused (fr_engine fr) \<and> hasScene (fr_engine fr)"
    using assms(1-3) d_def n1 [unfolded f_def a_def] unfolding f_def a_def
    by (rule gameLoop_run)
  then obtain fr where fr:
    "gameLoop t e = Some fr \<and> fr_rendered fr \<and>
           fr_ticks fr = [] @ replicate n f \<and>
           fr_update fr = Some d \<and> deltaTime (fr_engine fr) = d \<and>
           accumulator (fr_engine fr) = ((\<lambda>x. fsub x f) ^^ n) a \<and> lastTime (fr_engine fr) = t \<and>
           fixedDeltaTime (fr_engine fr) = fixedDeltaTime e \<and>
           isRunning (fr_engine fr) \<and> \<not> isPaused (fr_engine fr) \<and> hasScene (fr_engine fr)" ..
  have dd: "deltaTime (fr_engine fr) = d" using fr by (elim conjE)
  have dmin: "deltaTime (fr_engine fr) = min (fdiv (fsub t (lastTime e)) 1000) (fl (1 / 10))"
    unfolding dd by (rule d_def)
  have "gameLoop t e = Some fr \<and> fr_rendered fr \<and>
           deltaTime (fr_engine fr) = min (fdiv (fsub t (lastTime e)) 1000) (fl (1 / 10)) \<and>
           fr_update fr = Some (deltaTime (fr_engine fr)) \<and>
           fr_ticks fr = replicate n (fixedDeltaTime e) \<and>
           accumulator (fr_engine fr)
             = ((\<lambda>a. fsub a (fixedDeltaTime e)) ^^ n)
                 (fadd (accumulator e) (deltaTime (fr_engine fr))) \<and>
           (\<forall>k<n. fixedDeltaTime e
                     \<le> ((\<lambda>a. fsub a (fixedDeltaTime e)) ^^ k)
                          (fadd (accumulator e) (deltaTime (fr_engine fr)))) \<and>
           accumulator (fr_engine fr) < fixedDeltaTime e \<and>
           fixedDeltaTime (fr_engine fr) = fixedDeltaTime e"
    using fr n2 n3 dmin unfolding f_def a_def dd [symmetric]
    by (simp only: append_Nil simp_thms)
  then show ?thesis
    by (intro exI [of _ n] exI [of _ fr])
qed

text \<open>The doubles of the example: 1/60, 0.02, and the accumulator over three frames.\<close>

lemma fixed_val: "fdiv 1 60 = 4803839602528529 / 2 ^ 58"
  unfolding fdiv_def by (subst fl_eq [of "- 6"]) (simp_all add: rne_def)

lemma delta_val: "fl (1 / 50) = 5764607523034235 / 2 ^ 58"
  by (subst fl_eq [of "- 6"]) (simp_all add: rne_def)

lemma add1: "fadd 0 (5764607523034235 / 2 ^ 58) = 5764607523034235 / 2 ^ 58"
  unfolding fadd_def by (subst fl_eq [of "- 6"]) (simp_all add: rne_def)

lemma sub1:
  "fsub (5764607523034235 / 2 ^ 58) (4803839602528529 / 2 ^ 58) = 960767920505706 / 2 ^ 58"
  unfolding fsub_def by (subst fl_eq [of "- 9"]) (simp_all add: rne_def)

lemma add2:
  "fadd (960767920505706 / 2 ^ 58) (5764607523034235 / 2 ^ 58) = 6725375443539941 / 2 ^ 58"
  unfolding fadd_def by (subst fl_eq [of "- 6"]) (simp_all add: rne_def)

lemma sub2:
  "fsub (6725375443539941 / 2 ^ 58) (4803839602528529 / 2 ^ 58) = 1921535841011412 / 2 ^ 58"
  unfolding fsub_def by (subst fl_eq [of "- 8"]) (simp_all add: rne_def)

lemma add3:
  "fadd (1921535841011412 / 2 ^ 58) (5764607523034235 / 2 ^ 58) = 7686143364045647 / 2 ^ 58"
  unfolding fadd_def by (subst fl_eq [of "- 6"]) (simp_all add: rne_def)

lemma sub3:
  "fsub (7686143364045647 / 2 ^ 58) (4803839602528529 / 2 ^ 58) = 2882303761517118 / 2 ^ 58"
  unfolding fsub_def by (subst fl_eq [of "- 7"]) (simp_all add: rne_def)

lemma delta_clamp: "min (fl (1 / 50)) (fl (1 / 10)) = 5764607523034235 / 2 ^ 58"
  unfolding delta_val fl_tenth by simp

lemma tickLoop_once:
  assumes "f \<le> a" and "fsub a f < f"
  shows "tickLoop f a [] = Some (fsub a f, [f])"
proof -
  have "tickLoop f (fsub a f) ([] @ [f]) = Some (fsub a f, [f])"
    using assms(2) by (simp only: tickLoop_stop append_Nil)
  then show ?thesis using assms(1) by (simp only: tickLoop_step)
qed

lemma tick1:
  "tickLoop (4803839602528529 / 2 ^ 58) (fadd 0 (5764607523034235 / 2 ^ 58)) []
     = Some (960767920505706 / 2 ^ 58, [4803839602528529 / 2 ^ 58])"
  unfolding add1 by (subst tickLoop_once) (simp_all only: sub1, simp_all)

lemma tick2:
  "tickLoop (4803839602528529 / 2 ^ 58)
     (fadd (960767920505706 / 2 ^ 58) (5764607523034235 / 2 ^ 58)) []
     = Some (1921535841011412 / 2 ^ 58, [4803839602528529 / 2 ^ 58])"
  unfolding add2 by (subst tickLoop_once) (simp_all only: sub2, simp_all)

lemma tick3:
  "tickLoop (4803839602528529 / 2 ^ 58)
     (fadd (1921535841011412 / 2 ^ 58) (5764607523034235 / 2 ^ 58)) []
     = Some (2882303761517118 / 2 ^ 58, [4803839602528529 / 2 ^ 58])"
  unfolding add3 by (subst tickLoop_once) (simp_all only: sub3, simp_all)

lemma fl_zero: "fl 0 = 0"
  by (simp add: fl_def)

lemma fl_twenty: "fl 20 = 20"
  by (subst fl_eq [of 4]) (simp_all add: rne_def)

lemma gameLoop_frame:
  assumes "isRunning e" and "\<not> isPaused e" and "hasScene e"
    and "fdiv (fsub t (lastTime e)) 1000 = fl (1 / 50)"
    and "fixedDeltaTime e = f"
    and "tickLoop f (fadd (accumulator e) (5764607523034235 / 2 ^ 58)) [] = Some (acc, ts)"
  shows "\<exists>fr. gameLoop t e = Some fr \<and> fr_ticks fr = ts \<and>
           accumulator (fr_engine fr) = acc \<and> lastTime (fr_engine fr) = t \<and>
           fixedDeltaTime (fr_engine fr) = f \<and>
           isRunning (fr_engine fr) \<and> \<not> isPaused (fr_engine fr) \<and> hasScene (fr_engine fr)"
proof -
  have d: "5764607523034235 / 2 ^ 58 = min (fdiv (fsub t (lastTime e)) 1000) (fl (1 / 10))"
    unfolding assms(4) by (rule delta_clamp [symmetric])
  have "\<exists>fr. gameLoop t e = Some fr \<and> fr_rendered fr \<and> fr_ticks fr = ts \<and>
           fr_update fr = Some (5764607523034235 / 2 ^ 58) \<and>
           deltaTime (fr_engine fr) = 5764607523034235 / 2 ^ 58 \<and>
           accumulator (fr_engine fr) = acc \<and> lastTime (fr_engine fr) = t \<and>
           fixedDeltaTime (fr_engine fr) = fixedDeltaTime e \<and>
           isRunning (fr_engine fr) \<and> \<not> isPaused (fr_engine fr) \<and> hasScene (fr_engine fr)"
    using assms(1-3) d assms(6) [folded assms(5)] by (rule gameLoop_run)
  then obtain fr where
    "gameLoop t e = Some fr \<and> fr_rendered fr \<and> fr_ticks fr = ts \<and>
           fr_update fr = Some (5764607523034235 / 2 ^ 58) \<and>
           deltaTime (fr_engine fr) = 5764607523034235 / 2 ^ 58 \<and>
           accumulator (fr_engine fr) = acc \<and> lastTime (fr_engine fr) = t \<and>
           fixedDeltaTime (fr_engine fr) = fixedDeltaTime e \<and>
           isRunning (fr_engine fr) \<and> \<not> isPaused (fr_engine fr) \<and> hasScene (fr_engine fr)" ..
  then have "gameLoop t e = Some fr \<and> fr_ticks fr = ts \<and>
           accumulator (fr_engine fr) = acc \<and> lastTime (fr_engine fr) = t \<and>
           fixedDeltaTime (fr_engine fr) = f \<and>
           isRunning (fr_engine fr) \<and> \<not> isPaused (fr_engine fr) \<and> hasScene (fr_engine fr)"
    unfolding assms(5) by (simp only: simp_thms)
  then show ?thesis ..
qed

lemma three_frames:
  assumes "isRunning e" and "\<not> isPaused e" and "hasScene e"
    and "fixedDeltaTime e = fdiv 1 60" and "accumulator e = 0"
    and "fdiv (fsub t1 (lastTime e)) 1000 = fl (1 / 50)"
    and "fdiv (fsub t2 t1) 1000 = fl (1 / 50)"
    and "fdiv (fsub t3 t2) 1000 = fl (1 / 50)"
  shows "\<exists>e'. runFrames [t1, t2, t3] e = Some (e', [fdiv 1 60, fdiv 1 60, fdiv 1 60]) \<and>
              accumulator e' = 2882303761517118 / 2 ^ 58"
proof -
  note f = assms(4) [unfolded fixed_val]
  have "\<exists>fr. gameLoop t1 e = Some fr \<and> fr_ticks fr = [4803839602528529 / 2 ^ 58] \<and>
           accumulator (fr_engine fr) = 960767920505706 / 2 ^ 58 \<and> lastTime (fr_engine fr) = t1 \<and>
           fixedDeltaTime (fr_engine fr) = 4803839602528529 / 2 ^ 58 \<and>
           isRunning (fr_engine fr) \<and> \<not> isPaused (fr_engine fr) \<and> hasScene (fr_engine fr)"
    using assms(1-3,6) f tick1 [folded assms(5)] by (rule gameLoop_frame)
  then obtain fr1 where fr1:
    "gameLoop t1 e = Some fr1 \<and> fr_ticks fr1 = [4803839602528529 / 2 ^ 58] \<and>
           accumulator (fr_engine fr1) = 960767920505706 / 2 ^ 58 \<and> lastTime (fr_engine fr1) = t1 \<and>
           fixedDeltaTime (fr_engine fr1) = 4803839602528529 / 2 ^ 58 \<and>
           isRunning (fr_engine fr1) \<and> \<not> isPaused (fr_engine fr1) \<and> hasScene (fr_engine fr1)" ..
  then have a1: "accumulator (fr_engine fr1) = 960767920505706 / 2 ^ 58"
    and l1: "lastTime (fr_engine fr1) = t1"
    and f1: "fixedDeltaTime (fr_engine fr1) = 4803839602528529 / 2 ^ 58"
    and r1: "isRunning (fr_engine fr1)" "\<not> isPaused (fr_engine fr1)" "hasScene (fr_engine fr1)"
    and g1: "gameLoop t1 e = Some fr1" "fr_ticks fr1 = [4803839602528529 / 2 ^ 58]"
    by simp_all
  have "\<exists>fr. gameLoop t2 (fr_engine fr1) = Some fr \<and> fr_ticks fr = [4803839602528529 / 2 ^ 58] \<and>
           accumulator (fr_engine fr) = 1921535841011412 / 2 ^ 58 \<and> lastTime (fr_engine fr) = t2 \<and>
           fixedDeltaTime (fr_engine fr) = 4803839602528529 / 2 ^ 58 \<and>
           isRunning (fr_engine fr) \<and> \<not> isPaused (fr_engine fr) \<and> hasScene (fr_engine fr)"
    using r1 assms(7) [folded l1] f1 tick2 [folded a1] by (rule gameLoop_frame)
  then obtain fr2 where fr2:
    "gameLoop t2 (fr_engine fr1) = Some fr2 \<and> fr_ticks fr2 = [4803839602528529 / 2 ^ 58] \<and>
           accumulator (fr_engine fr2) = 1921535841011412 / 2 ^ 58 \<and> lastTime (fr_engine fr2) = t2 \<and>
           fixedDeltaTime (fr_engine fr2) = 4803839602528529 / 2 ^ 58 \<and>
           isRunning (fr_engine fr2) \<and> \<not> isPaused (fr_engine fr2) \<and> hasScene (fr_engine fr2)" ..
  then have a2: "accumulator (fr_engine fr2) = 1921535841011412 / 2 ^ 58"
    and l2: "lastTime (fr_engine fr2) = t2"
    and f2: "fixedDeltaTime (fr_engine fr2) = 4803839602528529 / 2 ^ 58"
    and r2: "isRunning (fr_engine fr2)" "\<not> isPaused (fr_engine fr2)" "hasScene (fr_engine fr2)"
    and g2: "gameLoop t2 (fr_engine fr1) = Some fr2" "fr_ticks fr2 = [4803839602528529 / 2 ^ 58]"
    by simp_all
  have "\<exists>fr. gameLoop t3 (fr_engine fr2) = Some fr \<and> fr_ticks fr = [4803839602528529 / 2 ^ 58] \<and>
           accumulator (fr_engine fr) = 2882303761517118 / 2 ^ 58 \<and> lastTime (fr_engine fr) = t3 \<and>
           fixedDeltaTime (fr_engine fr) = 4803839602528529 / 2 ^ 58 \<and>
           isRunning (fr_engine fr) \<and> \<not> isPaused (fr_engine fr) \<and> hasScene (fr_engine fr)"
    using r2 assms(8) [folded l2] f2 tick3 [folded a2] by (rule gameLoop_frame)
  then obtain fr3 where fr3:
    "gameLoop t3 (fr_engine fr2) = Some fr3 \<and> fr_ticks fr3 = [4803839602528529 / 2 ^ 58] \<and>
           accumulator (fr_engine fr3) = 2882303761517118 / 2 ^ 58 \<and> lastTime (fr_engine fr3) = t3 \<and>
           fixedDeltaTime (fr_engine fr3) = 4803839602528529 / 2 ^ 58 \<and>
           isRunning (fr_engine fr3) \<and> \<not> isPaused (fr_engine fr3) \<and> hasScene (fr_engine fr3)" ..
  then have a3: "accumulator (fr_engine fr3) = 2882303761517118 / 2 ^ 58"
    and g3: "gameLoop t3 (fr_engine fr2) = Some fr3" "fr_ticks fr3 = [4803839602528529 / 2 ^ 58]"
    by simp_all
  have "runFrames [t1, t2, t3] e = Some (fr_engine fr3, [fdiv 1 60, fdiv 1 60, fdiv 1 60])"
    unfolding fixed_val by (simp only: runFrames.simps g1 g2 g3 option.case prod.case append.simps)
  with a3 show ?thesis by (intro exI [of _ "fr_engine fr3"] conjI)
qed

lemma fsub_zero: "fsub 0 0 = 0"
  by (simp add: fsub_def fl_def)

lemma fdiv_zero: "fdiv 0 1000 = 0"
  by (simp add: fdiv_def fl_def)

lemma fadd_zero: "fadd 0 0 = 0"
  by (simp add: fadd_def fl_def)

text \<open>
  \<open>start()\<close> at time 0 on a fresh engine with a scene runs the first frame with no
  elapsed time: no tick, \<open>update(0)\<close>, a render, and the frame counted.
\<close>

lemma start_newEngine:
  "start 0 (setScene newEngine)
     = Some \<lparr>fr_engine = startedEngine, fr_ticks = [], fr_update = Some 0, fr_rendered = True\<rparr>"
proof -
  have "(0::real) < fdiv 1 60" unfolding fixed_val by simp
  then have t: "tickLoop (fdiv 1 60) 0 [] = Some (0, [])" by (rule tickLoop_stop)
  have m: "min 0 (fl (1 / 10)) = 0" unfolding fl_tenth by simp
  show ?thesis
    by (simp add: start_def setScene_def newEngine_def startedEngine_def gameLoop_def Let_def
        fsub_zero fdiv_zero fadd_zero m t)
qed

lemma frame_20: "fdiv (fsub 20 0) 1000 = fl (1 / 50)"
  unfolding fsub_def fdiv_def by (simp add: fl_twenty)

lemma frame_40: "fdiv (fsub 40 20) 1000 = fl (1 / 50)"
  unfolding fsub_def fdiv_def by (simp add: fl_twenty)

lemma frame_60: "fdiv (fsub 60 40) 1000 = fl (1 / 50)"
  unfolding fsub_def fdiv_def by (simp add: fl_twenty)

lemma gameLoop_paused:
  assumes "isRunning e" and "isPaused e"
    and "d = min (fdiv (fsub t (lastTime e)) 1000) (fl (1 / 10))"
    and "fadd (fpsTime e) d < 1"
  shows "gameLoop t e
           = Some \<lparr>fr_engine = e\<lparr>lastTime := t, deltaTime := d, frameCount := frameCount e + 1,
                                  fpsTime := fadd (fpsTime e) d\<rparr>,
                   fr_ticks = [], fr_update = None, fr_rendered = True\<rparr>"
  using assms by (simp add: gameLoop_def Let_def)

text \<open>
  C2, as the code has it. On every frame of a running engine: if the engine is paused or
  has no current scene, the frame is rendered, no tick runs, \<open>update\<close> is not called and
  the accumulator stays as it was. Otherwise, with a fixed tick of at least \<open>2^(-50)\<close> s
  and an accumulator below one tick (as every earlier frame leaves it): the elapsed time
  is clamped to at most the double 0.1 and added to the accumulator; the frame runs \<open>n\<close>
  physics ticks, each with \<open>dt = fixedDeltaTime\<close>, one for each time the accumulator was
  found to reach \<open>fixedDeltaTime\<close>, subtracting \<open>fixedDeltaTime\<close> each time; what is left
  is below one tick and stays in the engine for the next frame; the frame is rendered.
  All sums and differences are those of doubles. Three successive frames with elapsed
  time 0.02, from an empty accumulator with the tick 1/60, run exactly three ticks and
  leave the double 0.010000000000000002, which is within \<open>10^(-17)\<close> of 0.01.
\<close>

theorem gameLoop_fixed_step:
  assumes "isRunning e"
  shows "(isPaused e \<or> \<not> hasScene e \<longrightarrow>
            (\<exists>fr. gameLoop t e = Some fr \<and> fr_rendered fr \<and> fr_ticks fr = [] \<and>
                   fr_update fr = None \<and> accumulator (fr_engine fr) = accumulator e)) \<and>
         (\<not> isPaused e \<and> hasScene e \<and>
          1 / 2 ^ 50 \<le> fixedDeltaTime e \<and> accumulator e < fixedDeltaTime e \<longrightarrow>
            (\<exists>n fr. gameLoop t e = Some fr \<and> fr_rendered fr \<and>
               deltaTime (fr_engine fr) = min (fdiv (fsub t (lastTime e)) 1000) (fl (1 / 10)) \<and>
               fr_update fr = Some (deltaTime (fr_engine fr)) \<and>
               fr_ticks fr = replicate n (fixedDeltaTime e) \<and>
               accumulator (fr_engine fr)
                 = ((\<lambda>a. fsub a (fixedDeltaTime e)) ^^ n)
                     (fadd (accumulator e) (deltaTime (fr_engine fr))) \<and>
               (\<forall>k<n. fixedDeltaTime e
                         \<le> ((\<lambda>a. fsub a (fixedDeltaTime e)) ^^ k)
                              (fadd (accumulator e) (deltaTime (fr_engine fr)))) \<and>
               accumulator (fr_engine fr) < fixedDeltaTime e \<and>
               fixedDeltaTime (fr_engine fr) = fixedDeltaTime e)) \<and>
         (\<not> isPaused e \<and> hasScene e \<and> fixedDeltaTime e = fdiv 1 60 \<and> accumulator e = 0 \<and>
          fdiv (fsub t1 (lastTime e)) 1000 = fl (1 / 50) \<and>
          fdiv (fsub t2 t1) 1000 = fl (1 / 50) \<and>
          fdiv (fsub t3 t2) 1000 = fl (1 / 50) \<longrightarrow>
            (\<exists>e'. runFrames [t1, t2, t3] e = Some (e', [fdiv 1 60, fdiv 1 60, fdiv 1 60]) \<and>
                   accumulator e' = 2882303761517118 / 2 ^ 58 \<and>
                   \<bar>accumulator e' - 1 / 100\<bar> < 1 / 10 ^ 17))"
proof (intro conjI impI)
  assume "isPaused e \<or> \<not> hasScene e"
  with assms show "\<exists>fr. gameLoop t e = Some fr \<and> fr_rendered fr \<and> fr_ticks fr = [] \<and>
                   fr_update fr = None \<and> accumulator (fr_engine fr) = accumulator e"
    by (rule gameLoop_idle)
next
  assume h: "\<not> isPaused e \<and> hasScene e \<and>
          1 / 2 ^ 50 \<le> fixedDeltaTime e \<and> accumulator e < fixedDeltaTime e"
  then have "\<not> isPaused e" "hasScene e" "1 / 2 ^ 50 \<le> fixedDeltaTime e"
    "accumulator e < fixedDeltaTime e" by simp_all
  with assms show "\<exists>n fr. gameLoop t e = Some fr \<and> fr_rendered fr \<and>
               deltaTime (fr_engine fr) = min (fdiv (fsub t (lastTime e)) 1000) (fl (1 / 10)) \<and>
               fr_update fr = Some (deltaTime (fr_engine fr)) \<and>
               fr_ticks fr = replicate n (fixedDeltaTime e) \<and>
               accumulator (fr_engine fr)
                 = ((\<lambda>a. fsub a (fixedDeltaTime e)) ^^ n)
                     (fadd (accumulator e) (deltaTime (fr_engine fr))) \<and>
               (\<forall>k<n. fixedDeltaTime e
                         \<le> ((\<lambda>a. fsub a (fixedDeltaTime e)) ^^ k)
                              (fadd (accumulator e) (deltaTime (fr_engine fr)))) \<and>
               accumulator (fr_engine fr) < fixedDeltaTime e \<and>
               fixedDeltaTime (fr_engine fr) = fixedDeltaTime e"
    by (rule gameLoop_active)
next
  assume h: "\<not> isPaused e \<and> hasScene e \<and> fixedDeltaTime e = fdiv 1 60 \<and> accumulator e = 0 \<and>
          fdiv (fsub t1 (lastTime e)) 1000 = fl (1 / 50) \<and>
          fdiv (fsub t2 t1) 1000 = fl (1 / 50) \<and>
          fdiv (fsub t3 t2) 1000 = fl (1 / 50)"
  then have "\<not> isPaused e" "hasScene e" "fixedDeltaTime e = fdiv 1 60" "accumulator e = 0"
    "fdiv (fsub t1 (lastTime e)) 1000 = fl (1 / 50)"
    "fdiv (fsub t2 t1) 1000 = fl (1 / 50)" "fdiv (fsub t3 t2) 1000 = fl (1 / 50)"
    by simp_all
  with assms have "\<exists>e'. runFrames [t1, t2, t3] e = Some (e', [fdiv 1 60, fdiv 1 60, fdiv 1 60]) \<and>
              accumulator e' = 2882303761517118 / 2 ^ 58"
    by (rule three_frames)
  then obtain e' where e':
    "runFrames [t1, t2, t3] e = Some (e', [fdiv 1 60, fdiv 1 60, fdiv 1 60]) \<and>
     accumulator e' = 2882303761517118 / 2 ^ 58" ..
  then have a: "accumulator e' = 2882303761517118 / 2 ^ 58" ..
  have "\<bar>accumulator e' - 1 / 100\<bar> < 1 / 10 ^ 17" unfolding a by simp
  with e' show "\<exists>e'. runFrames [t1, t2, t3] e = Some (e', [fdiv 1 60, fdiv 1 60, fdiv 1 60]) \<and>
                   accumulator e' = 2882303761517118 / 2 ^ 58 \<and>
                   \<bar>accumulator e' - 1 / 100\<bar> < 1 / 10 ^ 17"
    by (intro exI [of _ e']) simp
qed

theorem gameLoop_fixed_step_witness:
  "isRunning startedEngine \<and> \<not> isPaused startedEngine \<and> hasScene startedEngine \<and>
   1 / 2 ^ 50 \<le> fixedDeltaTime startedEngine \<and> accumulator startedEngine < fixedDeltaTime startedEngine \<and>
   fixedDeltaTime startedEngine = fdiv 1 60 \<and> accumulator startedEngine = 0 \<and>
   fdiv (fsub 20 (lastTime startedEngine)) 1000 = fl (1 / 50) \<and>
   fdiv (fsub 40 20) 1000 = fl (1 / 50) \<and> fdiv (fsub 60 40) 1000 = fl (1 / 50) \<and>
   (\<exists>e'. runFrames [20, 40, 60] startedEngine = Some (e', [fdiv 1 60, fdiv 1 60, fdiv 1 60]) \<and>
          accumulator e' = 2882303761517118 / 2 ^ 58 \<and>
          \<bar>accumulator e' - 1 / 100\<bar> < 1 / 10 ^ 17) \<and>
   (\<exists>n fr. gameLoop 20 startedEngine = Some fr \<and> fr_rendered fr \<and>
       fr_ticks fr = replicate n (fixedDeltaTime startedEngine) \<and>
       accumulator (fr_engine fr) < fixedDeltaTime startedEngine) \<and>
   isRunning (startedEngine\<lparr>isPaused := True\<rparr>) \<and> isPaused (startedEngine\<lparr>isPaused := True\<rparr>) \<and>
   (\<exists>fr. gameLoop 20 (startedEngine\<lparr>isPaused := True\<rparr>) = Some fr \<and> fr_rendered fr \<and>
       fr_ticks fr = [] \<and> fr_update fr = None \<and> accumulator (fr_engine fr) = 0)"
proof -
  have r: "isRunning startedEngine" by (simp add: startedEngine_def)
  have p: "\<not> isPaused startedEngine" "hasScene startedEngine" by (simp_all add: startedEngine_def)
  have v: "fixedDeltaTime startedEngine = fdiv 1 60" "accumulator startedEngine = 0"
    "lastTime startedEngine = 0"
    by (simp_all add: startedEngine_def)
  have b: "1 / 2 ^ 50 \<le> fixedDeltaTime startedEngine" "accumulator startedEngine < fixedDeltaTime startedEngine"
    unfolding v fixed_val by simp_all
  have f: "fdiv (fsub 20 (lastTime startedEngine)) 1000 = fl (1 / 50)"
    unfolding v by (rule frame_20)
  have r': "isRunning (startedEngine\<lparr>isPaused := True\<rparr>)" "isPaused (startedEngine\<lparr>isPaused := True\<rparr>)"
    "accumulator (startedEngine\<lparr>isPaused := True\<rparr>) = 0"
    by (simp_all add: startedEngine_def)
  note live = gameLoop_fixed_step [OF r, of 20 20 40 60]
  note idle = gameLoop_fixed_step [OF r'(1), of 20 20 40 60]
  have 1: "\<exists>e'. runFrames [20, 40, 60] startedEngine = Some (e', [fdiv 1 60, fdiv 1 60, fdiv 1 60]) \<and>
          accumulator e' = 2882303761517118 / 2 ^ 58 \<and>
          \<bar>accumulator e' - 1 / 100\<bar> < 1 / 10 ^ 17"
    using live [THEN conjunct2, THEN conjunct2] p v(1,2) f frame_40 frame_60 by blast
  have "\<exists>n fr. gameLoop 20 startedEngine = Some fr \<and> fr_rendered fr \<and>
               deltaTime (fr_engine fr) = min (fdiv (fsub 20 (lastTime startedEngine)) 1000) (fl (1 / 10)) \<and>
               fr_update fr = Some (deltaTime (fr_engine fr)) \<and>
               fr_ticks fr = replicate n (fixedDeltaTime startedEngine) \<and>
               accumulator (fr_engine fr)
                 = ((\<lambda>a. fsub a (fixedDeltaTime startedEngine)) ^^ n)
                     (fadd (accumulator startedEngine) (deltaTime (fr_engine fr))) \<and>
               (\<forall>k<n. fixedDeltaTime startedEngine
                         \<le> ((\<lambda>a. fsub a (fixedDeltaTime startedEngine)) ^^ k)
                              (fadd (accumulator startedEngine) (deltaTime (fr_engine fr)))) \<and>
               accumulator (fr_engine fr) < fixedDeltaTime startedEngine \<and>
               fixedDeltaTime (fr_engine fr) = fixedDeltaTime startedEngine"
    using live [THEN conjunct2, THEN conjunct1] p b by (simp only: simp_thms)
  then obtain n fr where
    "gameLoop 20 startedEngine = Some fr \<and> fr_rendered fr \<and>
               deltaTime (fr_engine fr) = min (fdiv (fsub 20 (lastTime startedEngine)) 1000) (fl (1 / 10)) \<and>
               fr_update fr = Some (deltaTime (fr_engine fr)) \<and>
               fr_ticks fr = replicate n (fixedDeltaTime startedEngine) \<and>
               accumulator (fr_engine fr)
                 = ((\<lambda>a. fsub a (fixedDeltaTime startedEngine)) ^^ n)
                     (fadd (accumulator startedEngine) (deltaTime (fr_engine fr))) \<and>
               (\<forall>k<n. fixedDeltaTime startedEngine
                         \<le> ((\<lambda>a. fsub a (fixedDeltaTime startedEngine)) ^^ k)
                              (fadd (accumulator startedEngine) (deltaTime (fr_engine fr)))) \<and>
               accumulator (fr_engine fr) < fixedDeltaTime startedEngine \<and>
               fixedDeltaTime (fr_engine fr) = fixedDeltaTime startedEngine"
    by (elim exE)
  note c = this
  have "gameLoop 20 startedEngine = Some fr" using c by (elim conjE)
  moreover have "fr_rendered fr" using c by (elim conjE)
  moreover have "fr_ticks fr = replicate n (fixedDeltaTime startedEngine)" using c by (elim conjE)
  moreover have "accumulator (fr_engine fr) < fixedDeltaTime startedEngine" using c by (elim conjE)
  ultimately have "gameLoop 20 startedEngine = Some fr \<and> fr_rendered fr \<and>
       fr_ticks fr = replicate n (fixedDeltaTime startedEngine) \<and>
       accumulator (fr_engine fr) < fixedDeltaTime startedEngine"
    by (intro conjI)
  then have 2: "\<exists>n fr. gameLoop 20 startedEngine = Some fr \<and> fr_rendered fr \<and>
       fr_ticks fr = replicate n (fixedDeltaTime startedEngine) \<and>
       accumulator (fr_engine fr) < fixedDeltaTime startedEngine"
    by (intro exI [of _ n] exI [of _ fr])
  have 3: "\<exists>fr. gameLoop 20 (startedEngine\<lparr>isPaused := True\<rparr>) = Some fr \<and> fr_rendered fr \<and>
       fr_ticks fr = [] \<and> fr_update fr = None \<and> accumulator (fr_engine fr) = 0"
    using idle [THEN conjunct1] r'(2) unfolding r'(3) by (simp only: simp_thms)
  show ?thesis
    using r p b v(1,2) f frame_40 frame_60 1 2 r'(1,2) 3 by (intro conjI)
qed

text \<open>
  C2, as the claim has it, fails on a paused engine: the frame 20 ms after the last one
  is rendered, but the elapsed 0.02 s is not added to the accumulator and no tick runs,
  although 0.02 is more than the tick 1/60.
\<close>

theorem gameLoop_paused_counterexample:
  "gameLoop 20 (startedEngine\<lparr>isPaused := True\<rparr>)
     = Some \<lparr>fr_engine = startedEngine\<lparr>isPaused := True, lastTime := 20, deltaTime := fl (1 / 50),
                                   frameCount := 2, fpsTime := fl (1 / 50)\<rparr>,
             fr_ticks = [], fr_update = None, fr_rendered = True\<rparr> \<and>
   accumulator (startedEngine\<lparr>isPaused := True, lastTime := 20, deltaTime := fl (1 / 50),
                          frameCount := 2, fpsTime := fl (1 / 50)\<rparr>) = 0 \<and>
   fixedDeltaTime (startedEngine\<lparr>isPaused := True\<rparr>) = fdiv 1 60 \<and>
   fdiv 1 60 \<le> fl (1 / 50)"
proof -
  have d: "fl (1 / 50) = min (fdiv (fsub 20 (lastTime (startedEngine\<lparr>isPaused := True\<rparr>))) 1000)
                            (fl (1 / 10))"
    by (simp add: startedEngine_def frame_20) (simp add: delta_val fl_tenth)
  have a: "fadd 0 (fl (1 / 50)) = fl (1 / 50)"
    unfolding delta_val by (rule add1)
  have s: "fadd (fpsTime (startedEngine\<lparr>isPaused := True\<rparr>)) (fl (1 / 50)) < 1"
    by (simp add: startedEngine_def a) (simp add: delta_val)
  have "gameLoop 20 (startedEngine\<lparr>isPaused := True\<rparr>)
     = Some \<lparr>fr_engine = startedEngine\<lparr>isPaused := True, lastTime := 20, deltaTime := fl (1 / 50),
                                   frameCount := 2, fpsTime := fl (1 / 50)\<rparr>,
             fr_ticks = [], fr_update = None, fr_rendered = True\<rparr>"
    by (subst gameLoop_paused [OF _ _ d s]) (simp_all add: startedEngine_def a)
  moreover have "fdiv 1 60 \<le> fl (1 / 50)" unfolding fixed_val delta_val by simp
  ultimately show ?thesis by (simp add: startedEngine_def)
qed

text \<open>The doubles of a second example: frames at 5 ms and 50 ms.\<close>

lemma near_sub1: "fsub 5 0 = 5"
  unfolding fsub_def by (subst fl_eq [of 2]) (simp_all add: rne_def)

lemma near_div1: "fdiv 5 1000 = 5764607523034235 / 2 ^ 60"
  unfolding fdiv_def by (subst fl_eq [of "- 8"]) (simp_all add: rne_def)

lemma near_add1: "fadd 0 (5764607523034235 / 2 ^ 60) = 5764607523034235 / 2 ^ 60"
  unfolding fadd_def by (subst fl_eq [of "- 8"]) (simp_all add: rne_def)

lemma near_sub2: "fsub 50 5 = 45"
  unfolding fsub_def by (subst fl_eq [of 5]) (simp_all add: rne_def)

lemma near_div2: "fdiv 45 1000 = 3242591731706757 / 2 ^ 56"
  unfolding fdiv_def by (subst fl_eq [of "- 5"]) (simp_all add: rne_def)

lemma near_add2:
  "fadd (5764607523034235 / 2 ^ 60) (3242591731706757 / 2 ^ 56) = 7205759403792793 / 2 ^ 57"
  unfolding fadd_def by (subst fl_eq [of "- 5"]) (simp_all add: rne_def)

lemma near_tick1:
  "fsub (7205759403792793 / 2 ^ 57) (4803839602528529 / 2 ^ 58) = 300239975158033 / 2 ^ 53"
  unfolding fsub_def by (subst fl_eq [of "- 5"]) (simp_all add: rne_def)

lemma near_tick2:
  "fsub (300239975158033 / 2 ^ 53) (4803839602528529 / 2 ^ 58) = 4803839602528527 / 2 ^ 58"
  unfolding fsub_def by (subst fl_eq [of "- 6"]) (simp_all add: rne_def)

lemma near_loop1:
  "tickLoop (4803839602528529 / 2 ^ 58) (5764607523034235 / 2 ^ 60) []
     = Some (5764607523034235 / 2 ^ 60, [])"
  by (rule tickLoop_stop) simp

lemma near_loop2:
  "tickLoop (4803839602528529 / 2 ^ 58) (7205759403792793 / 2 ^ 57) []
     = Some (4803839602528527 / 2 ^ 58, [4803839602528529 / 2 ^ 58, 4803839602528529 / 2 ^ 58])"
proof -
  have "tickLoop (4803839602528529 / 2 ^ 58) (4803839602528527 / 2 ^ 58)
          (([] @ [4803839602528529 / 2 ^ 58]) @ [4803839602528529 / 2 ^ 58])
        = Some (4803839602528527 / 2 ^ 58,
                ([] @ [4803839602528529 / 2 ^ 58]) @ [4803839602528529 / 2 ^ 58])"
    by (rule tickLoop_stop) simp
  then have "tickLoop (4803839602528529 / 2 ^ 58) (300239975158033 / 2 ^ 53)
          ([] @ [4803839602528529 / 2 ^ 58])
        = Some (4803839602528527 / 2 ^ 58,
                ([] @ [4803839602528529 / 2 ^ 58]) @ [4803839602528529 / 2 ^ 58])"
    by (subst tickLoop_step) (simp_all only: near_tick2, simp)
  then have "tickLoop (4803839602528529 / 2 ^ 58) (7205759403792793 / 2 ^ 57) []
        = Some (4803839602528527 / 2 ^ 58,
                ([] @ [4803839602528529 / 2 ^ 58]) @ [4803839602528529 / 2 ^ 58])"
    by (subst tickLoop_step) (simp_all only: near_tick1, simp)
  then show ?thesis by (simp only: append.simps)
qed

text \<open>
  The tick count is that of the rounded sums, not of the exact ones: frames at 5 ms and
  50 ms bring 0.005 s and 0.045 s, exactly three ticks of 1/60 s; the doubles give
  0.049999999999999996, two ticks, and leave 0.01666666666666666, just below one tick.
\<close>

lemma gameLoop_rounding_example:
  "\<exists>e'. runFrames [5, 50] startedEngine = Some (e', [fdiv 1 60, fdiv 1 60]) \<and>
         accumulator e' = 4803839602528527 / 2 ^ 58 \<and>
         accumulator e' < fdiv 1 60 \<and> accumulator e' \<noteq> 0"
proof -
  have r: "isRunning startedEngine" "\<not> isPaused startedEngine" "hasScene startedEngine"
    by (simp_all add: startedEngine_def)
  have v: "fixedDeltaTime startedEngine = 4803839602528529 / 2 ^ 58" "accumulator startedEngine = 0"
    "lastTime startedEngine = 0"
    by (simp_all add: startedEngine_def fixed_val)
  have d1: "5764607523034235 / 2 ^ 60
              = min (fdiv (fsub 5 (lastTime startedEngine)) 1000) (fl (1 / 10))"
    unfolding v near_sub1 near_div1 fl_tenth by simp
  have "tickLoop (fixedDeltaTime startedEngine)
          (fadd (accumulator startedEngine) (5764607523034235 / 2 ^ 60)) []
        = Some (5764607523034235 / 2 ^ 60, [])"
    unfolding v near_add1 by (rule near_loop1)
  with r d1 have "\<exists>fr. gameLoop 5 startedEngine = Some fr \<and> fr_rendered fr \<and> fr_ticks fr = [] \<and>
           fr_update fr = Some (5764607523034235 / 2 ^ 60) \<and>
           deltaTime (fr_engine fr) = 5764607523034235 / 2 ^ 60 \<and>
           accumulator (fr_engine fr) = 5764607523034235 / 2 ^ 60 \<and>
           lastTime (fr_engine fr) = 5 \<and>
           fixedDeltaTime (fr_engine fr) = fixedDeltaTime startedEngine \<and>
           isRunning (fr_engine fr) \<and> \<not> isPaused (fr_engine fr) \<and> hasScene (fr_engine fr)"
    by (rule gameLoop_run)
  then obtain fr1 where
    "gameLoop 5 startedEngine = Some fr1 \<and> fr_rendered fr1 \<and> fr_ticks fr1 = [] \<and>
           fr_update fr1 = Some (5764607523034235 / 2 ^ 60) \<and>
           deltaTime (fr_engine fr1) = 5764607523034235 / 2 ^ 60 \<and>
           accumulator (fr_engine fr1) = 5764607523034235 / 2 ^ 60 \<and>
           lastTime (fr_engine fr1) = 5 \<and>
           fixedDeltaTime (fr_engine fr1) = fixedDeltaTime startedEngine \<and>
           isRunning (fr_engine fr1) \<and> \<not> isPaused (fr_engine fr1) \<and> hasScene (fr_engine fr1)" ..
  then have g1: "gameLoop 5 startedEngine = Some fr1" "fr_ticks fr1 = []"
    and a1: "accumulator (fr_engine fr1) = 5764607523034235 / 2 ^ 60"
    and l1: "lastTime (fr_engine fr1) = 5"
    and f1: "fixedDeltaTime (fr_engine fr1) = 4803839602528529 / 2 ^ 58"
    and r1: "isRunning (fr_engine fr1)" "\<not> isPaused (fr_engine fr1)" "hasScene (fr_engine fr1)"
    unfolding v by simp_all
  have d2: "3242591731706757 / 2 ^ 56
              = min (fdiv (fsub 50 (lastTime (fr_engine fr1))) 1000) (fl (1 / 10))"
    unfolding l1 near_sub2 near_div2 fl_tenth by simp
  have "tickLoop (fixedDeltaTime (fr_engine fr1))
          (fadd (accumulator (fr_engine fr1)) (3242591731706757 / 2 ^ 56)) []
        = Some (4803839602528527 / 2 ^ 58, [4803839602528529 / 2 ^ 58, 4803839602528529 / 2 ^ 58])"
    unfolding f1 a1 near_add2 by (rule near_loop2)
  with r1 d2 have "\<exists>fr. gameLoop 50 (fr_engine fr1) = Some fr \<and> fr_rendered fr \<and>
           fr_ticks fr = [4803839602528529 / 2 ^ 58, 4803839602528529 / 2 ^ 58] \<and>
           fr_update fr = Some (3242591731706757 / 2 ^ 56) \<and>
           deltaTime (fr_engine fr) = 3242591731706757 / 2 ^ 56 \<and>
           accumulator (fr_engine fr) = 4803839602528527 / 2 ^ 58 \<and>
           lastTime (fr_engine fr) = 50 \<and>
           fixedDeltaTime (fr_engine fr) = fixedDeltaTime (fr_engine fr1) \<and>
           isRunning (fr_engine fr) \<and> \<not> isPaused (fr_engine fr) \<and> hasScene (fr_engine fr)"
    by (rule gameLoop_run)
  then obtain fr2 where
    "gameLoop 50 (fr_engine fr1) = Some fr2 \<and> fr_rendered fr2 \<and>
           fr_ticks fr2 = [4803839602528529 / 2 ^ 58, 4803839602528529 / 2 ^ 58] \<and>
           fr_update fr2 = Some (3242591731706757 / 2 ^ 56) \<and>
           deltaTime (fr_engine fr2) = 3242591731706757 / 2 ^ 56 \<and>
           accumulator (fr_engine fr2) = 4803839602528527 / 2 ^ 58 \<and>
           lastTime (fr_engine fr2) = 50 \<and>
           fixedDeltaTime (fr_engine fr2) = fixedDeltaTime (fr_engine fr1) \<and>
           isRunning (fr_engine fr2) \<and> \<not> isPaused (fr_engine fr2) \<and> hasScene (fr_engine fr2)" ..
  then have g2: "gameLoop 50 (fr_engine fr1) = Some fr2"
      "fr_ticks fr2 = [4803839602528529 / 2 ^ 58, 4803839602528529 / 2 ^ 58]"
    and a2: "accumulator (fr_engine fr2) = 4803839602528527 / 2 ^ 58"
    by simp_all
  have "runFrames [5, 50] startedEngine = Some (fr_engine fr2, [fdiv 1 60, fdiv 1 60])"
    unfolding fixed_val by (simp only: runFrames.simps g1 g2 option.case prod.case append.simps)
  moreover have "accumulator (fr_engine fr2) < fdiv 1 60" "accumulator (fr_engine fr2) \<noteq> 0"
    unfolding a2 fixed_val by simp_all
  ultimately show ?thesis using a2 by (intro exI [of _ "fr_engine fr2"] conjI)
qed

section \<open>Detection: evaluating the examples\<close>

lemma pairs_2: "pairs (Suc (Suc 0)) = [(0, Suc 0)]"
  by (simp add: pairs_def upt_rec)

lemma pairs_3: "pairs (Suc (Suc (Suc 0))) = [(0, Suc 0), (0, Suc (Suc 0)), (Suc 0, Suc (Suc 0))]"
  by (simp add: pairs_def upt_rec)

lemma show_nat_digit: "n < 10 \<Longrightarrow> show_nat n = [digit_char n]"
  by (simp add: show_nat.simps)

lemma box_a_fields:
  "cid box_a = 0" "gameObject box_a = 0" "active box_a" "\<not> isTrigger box_a"
  "offset_x box_a = 0" "offset_y box_a = 0" "shape box_a = BoxCollider 10 10"
  by (simp_all add: box_a_def newBoxCollider_def)

lemma box_b_fields:
  "cid box_b = 1" "gameObject box_b = 1" "active box_b" "\<not> isTrigger box_b"
  "offset_x box_b = 0" "offset_y box_b = 0" "shape box_b = BoxCollider 10 10"
  by (simp_all add: box_b_def newBoxCollider_def)

lemma box_c_fields:
  "cid box_c = 2" "gameObject box_c = 2" "active box_c" "\<not> isTrigger box_c"
  "offset_x box_c = 0" "offset_y box_c = 0" "shape box_c = BoxCollider 10 10"
  by (simp_all add: box_c_def newBoxCollider_def)

lemma box_z_fields:
  "cid box_z = 3" "gameObject box_z = 3" "active box_z" "\<not> isTrigger box_z"
  "offset_x box_z = 0" "offset_y box_z = 0" "shape box_z = BoxCollider 10 10"
  by (simp_all add: box_z_def newBoxCollider_def)

lemma box_distinct:
  "box_a \<noteq> box_b" "box_a \<noteq> box_c" "box_b \<noteq> box_c"
  "box_b \<noteq> box_a" "box_c \<noteq> box_a" "box_c \<noteq> box_b"
  "box_z \<noteq> box_a" "box_z \<noteq> box_b" "box_a \<noteq> box_z" "box_b \<noteq> box_z"
  by (simp_all add: box_a_def box_b_def box_c_def box_z_def newBoxCollider_def)

lemmas box_fields = box_a_fields box_b_fields box_c_fields box_z_fields box_distinct

lemmas detect_eval = detectCollisions_def detectPair_def Let_def isColliding_def boxIntersects_def
  getBounds_def getWorldPosition_def pairKey_def nameOr_def show_nat_digit digit_char_def
  hasKey_def exitCalls_def resolveCollision_def rigidBodyOf_def pairs_2 pairs_3 newGameObject_def
  newPhysics_def

section \<open>Contact-pair keys: a collision\<close>

text \<open>
  C8 fails on the code. With game objects named \<open>player\<close>, \<open>enemy\<close> and \<open>enemy\<close>, the
  pair of the first and second collider and the pair of the first and third collider
  have the same key \<open>player-enemy\<close>, and the key depends on the order of the two
  colliders (\<open>enemy-player\<close> the other way round). A pass in which all three pairs
  overlap leaves a table of two entries.
\<close>

theorem pairKey_collision:
  "pairKey named_store box_a 0 box_b 1 = ''player-enemy'' \<and>
   pairKey named_store box_a 0 box_c 2 = ''player-enemy'' \<and>
   box_b \<noteq> box_c \<and>
   pairKey named_store box_b 0 box_a 1 = ''enemy-player'' \<and>
   detectCollisions world3 named_store
     = (world3\<lparr>collisionMatrix := [(''player-enemy'', box_a, box_c),
                                   (''enemy-enemy'', box_b, box_c)]\<rparr>,
        named_store,
        [Intersect box_a box_b, Call box_a OnCollisionEnter box_b,
         Call box_b OnCollisionEnter box_a, Resolve box_a box_b,
         Intersect box_a box_c, Call box_a OnCollisionEnter box_c,
         Call box_c OnCollisionEnter box_a, Resolve box_a box_c,
         Intersect box_b box_c, Call box_b OnCollisionEnter box_c,
         Call box_c OnCollisionEnter box_b, Resolve box_b box_c])"
proof -
  have k: "pairKey named_store box_a 0 box_b 1 = ''player-enemy''"
    "pairKey named_store box_a 0 box_c 2 = ''player-enemy''"
    "pairKey named_store box_b 0 box_a 1 = ''enemy-player''"
    by (simp_all add: pairKey_def nameOr_def named_store_def box_fields newGameObject_def)
  have d: "detectCollisions world3 named_store
     = (world3\<lparr>collisionMatrix := [(''player-enemy'', box_a, box_c),
                                   (''enemy-enemy'', box_b, box_c)]\<rparr>,
        named_store,
        [Intersect box_a box_b, Call box_a OnCollisionEnter box_b,
         Call box_b OnCollisionEnter box_a, Resolve box_a box_b,
         Intersect box_a box_c, Call box_a OnCollisionEnter box_c,
         Call box_c OnCollisionEnter box_a, Resolve box_a box_c,
         Intersect box_b box_c, Call box_b OnCollisionEnter box_c,
         Call box_c OnCollisionEnter box_b, Resolve box_b box_c])"
    by (simp add: detect_eval box_fields world3_def named_store_def)
  show ?thesis using k d box_distinct(3) by blast
qed

section \<open>Detection: the loop over the pairs\<close>

lemma set_pairs: "set (pairs n) = {(i, j). i < j \<and> j < n}"
  by (force simp: pairs_def)

lemma distinct_concat_map:
  "distinct xs \<Longrightarrow> (\<And>x. x \<in> set xs \<Longrightarrow> distinct (f x)) \<Longrightarrow>
   (\<And>x y. x \<in> set xs \<Longrightarrow> y \<in> set xs \<Longrightarrow> x \<noteq> y \<Longrightarrow> set (f x) \<inter> set (f y) = {}) \<Longrightarrow>
   distinct (concat (map f xs))"
proof (induction xs)
  case Nil
  then show ?case by simp
next
  case (Cons x xs)
  have "distinct (concat (map f xs))"
    using Cons.prems by (intro Cons.IH) auto
  moreover have "distinct (f x)" using Cons.prems(2) by simp
  moreover have "set (f x) \<inter> set (concat (map f xs)) = {}"
  proof -
    have "\<And>y. y \<in> set xs \<Longrightarrow> set (f x) \<inter> set (f y) = {}"
      using Cons.prems(1,3) by auto
    then show ?thesis by auto
  qed
  ultimately show ?case by simp
qed

lemma distinct_pairs: "distinct (pairs n)"
  unfolding pairs_def
  by (rule distinct_concat_map) (auto simp: distinct_map inj_on_def)

lemma indexOf_less: "c \<in> set cs \<Longrightarrow> indexOf c cs < length cs"
  by (induction cs) auto

lemma nth_indexOf: "c \<in> set cs \<Longrightarrow> cs ! indexOf c cs = c"
  by (induction cs) auto

lemma set_update_subset: "set (AList.update k v al) \<subseteq> insert (k, v) (set al)"
  by (induction al) auto

lemma pushX_name: "name (pushX g d st h) = name (st h)"
  by (simp add: pushX_def)

lemma pushY_name: "name (pushY g d gr st h) = name (st h)"
  by (simp add: pushY_def)

lemma resolveCollision_name: "name (resolveCollision st a b g) = name (st g)"
  by (simp add: resolveCollision_def resolveHorizontal_def resolveVertical_def Let_def
      pushX_name pushY_name split: option.splits)

lemma stepStore_name: "name (stepStore cs st p g) = name (st g)"
  by (simp add: stepStore_def Let_def resolveCollision_name)

lemma fold_stepStore_name: "name (foldl (stepStore cs) st qs g) = name (st g)"
  by (induction qs arbitrary: st) (simp_all add: stepStore_name)

lemma pairKey_names:
  "(\<And>g. name (st' g) = name (st g)) \<Longrightarrow> pairKey st' a i b j = pairKey st a i b j"
  by (simp add: pairKey_def)

lemma fst_detectPair: "fst (detectPair cs prev s p) = stepStore cs (fst s) p"
  by (cases s) (auto simp: detectPair_def stepStore_def Let_def)

lemma fst_fold_detectPair:
  "fst (foldl (detectPair cs prev) s qs) = foldl (stepStore cs) (fst s) qs"
  by (induction qs arbitrary: s) (simp_all add: fst_detectPair)


lemma takeWhile_upto:
  "x \<notin> set ys \<Longrightarrow> takeWhile (\<lambda>q. q \<noteq> x) (ys @ x # zs) = ys"
  by (induction ys) auto

lemma ownKey_update:
  assumes "ownKey k a b m" and "key \<noteq> k" and "v \<noteq> (a, b)" and "v \<noteq> (b, a)"
  shows "ownKey k a b (AList.update key v m)"
proof -
  have d: "distinct (map fst (AList.update key v m))"
    using assms(1) unfolding ownKey_def by (intro distinct_update) blast
  have "(fst e = k \<longrightarrow> snd e = (a, b)) \<and> (snd e = (a, b) \<or> snd e = (b, a) \<longrightarrow> fst e = k)"
    if "e \<in> set (AList.update key v m)" for e
  proof -
    from that set_update_subset [of key v m] have "e = (key, v) \<or> e \<in> set m" by blast
    then show ?thesis
    proof
      assume "e = (key, v)"
      then have "fst e = key" and "snd e = v" by (simp_all only: fst_conv snd_conv)
      then show ?thesis using assms(2,3,4) by blast
    next
      assume "e \<in> set m"
      then show ?thesis using assms(1) unfolding ownKey_def by blast
    qed
  qed
  with d show ?thesis unfolding ownKey_def by blast
qed

lemma ownKey_update_own:
  assumes "ownKey k a b m"
  shows "ownKey k a b (AList.update k (a, b) m)"
proof -
  have d: "distinct (map fst (AList.update k (a, b) m))"
    using assms unfolding ownKey_def by (intro distinct_update) blast
  have "(fst e = k \<longrightarrow> snd e = (a, b)) \<and> (snd e = (a, b) \<or> snd e = (b, a) \<longrightarrow> fst e = k)"
    if "e \<in> set (AList.update k (a, b) m)" for e
  proof -
    from that set_update_subset [of k "(a, b)" m] have "e = (k, (a, b)) \<or> e \<in> set m" by blast
    then show ?thesis
    proof
      assume "e = (k, (a, b))"
      then have "fst e = k" and "snd e = (a, b)" by (simp_all only: fst_conv snd_conv)
      then show ?thesis by blast
    next
      assume "e \<in> set m"
      then show ?thesis using assms unfolding ownKey_def by blast
    qed
  qed
  with d show ?thesis unfolding ownKey_def by blast
qed

lemma detectPair_hit:
  assumes "cs ! fst p = a" and "cs ! snd p = b"
    and "active a" and "active b" and "isColliding st a b"
  shows "detectPair cs prev (st, new, acts) p =
           (stepStore cs st p,
            AList.update (pairKey st a (fst p) b (snd p)) (a, b) new,
            acts @ Intersect a b #
              (if hasKey prev (pairKey st a (fst p) b (snd p))
               then [Call a OnCollisionStay b, Call b OnCollisionStay a]
               else [Call a OnCollisionEnter b, Call b OnCollisionEnter a]) @
              (if \<not> isTrigger a \<and> \<not> isTrigger b then [Resolve a b] else []))"
  using assms by (simp add: detectPair_def stepStore_def Let_def)

lemma detectPair_miss:
  assumes "cs ! fst p = a" and "cs ! snd p = b"
    and "\<not> (active a \<and> active b \<and> isColliding st a b)"
  shows "detectPair cs prev (st, new, acts) p =
           (st, new, acts @ (if active a \<and> active b then [Intersect a b] else []))"
  using assms by (auto simp add: detectPair_def Let_def)

lemma detectPair_foreign:
  assumes "pairKey st (cs ! fst q) (fst q) (cs ! snd q) (snd q) \<noteq> k"
    and "(cs ! fst q, cs ! snd q) \<noteq> (a, b)" and "(cs ! fst q, cs ! snd q) \<noteq> (b, a)"
    and "ownKey k a b new"
    and "detectPair cs prev (st, new, acts) q = (st', new', acts')"
  shows "filter (callsBetween a b) acts' = filter (callsBetween a b) acts \<and>
         map_of new' k = map_of new k \<and> ownKey k a b new'"
proof (cases "active (cs ! fst q) \<and> active (cs ! snd q) \<and> isColliding st (cs ! fst q) (cs ! snd q)")
  case True
  define x where "x = cs ! fst q"
  define y where "y = cs ! snd q"
  define key where "key = pairKey st x (fst q) y (snd q)"
  have h: "detectPair cs prev (st, new, acts) q =
           (stepStore cs st q, AList.update key (x, y) new,
            acts @ Intersect x y #
              (if hasKey prev key
               then [Call x OnCollisionStay y, Call y OnCollisionStay x]
               else [Call x OnCollisionEnter y, Call y OnCollisionEnter x]) @
              (if \<not> isTrigger x \<and> \<not> isTrigger y then [Resolve x y] else []))"
    unfolding key_def using True by (intro detectPair_hit) (simp_all add: x_def y_def)
  from assms(5) have "(st', new', acts') =
           (stepStore cs st q, AList.update key (x, y) new,
            acts @ Intersect x y #
              (if hasKey prev key
               then [Call x OnCollisionStay y, Call y OnCollisionStay x]
               else [Call x OnCollisionEnter y, Call y OnCollisionEnter x]) @
              (if \<not> isTrigger x \<and> \<not> isTrigger y then [Resolve x y] else []))"
    unfolding h by (rule sym)
  then have new': "new' = AList.update key (x, y) new"
    and acts': "acts' = acts @ Intersect x y #
              (if hasKey prev key
               then [Call x OnCollisionStay y, Call y OnCollisionStay x]
               else [Call x OnCollisionEnter y, Call y OnCollisionEnter x]) @
              (if \<not> isTrigger x \<and> \<not> isTrigger y then [Resolve x y] else [])"
    by (simp_all only: prod.inject)
  have k: "key \<noteq> k" using assms(1) by (simp add: key_def x_def y_def)
  have v: "(x, y) \<noteq> (a, b)" "(x, y) \<noteq> (b, a)" using assms(2,3) by (simp_all add: x_def y_def)
  have "filter (callsBetween a b) acts' = filter (callsBetween a b) acts"
    using v by (auto simp: acts')
  moreover have "map_of new' k = map_of new k"
    using k by (simp add: new' update_conv')
  moreover have "ownKey k a b new'"
    unfolding new' using assms(4) k v by (rule ownKey_update)
  ultimately show ?thesis by simp
next
  case False
  have h: "detectPair cs prev (st, new, acts) q =
           (st, new, acts @ (if active (cs ! fst q) \<and> active (cs ! snd q)
                             then [Intersect (cs ! fst q) (cs ! snd q)] else []))"
    using False by (intro detectPair_miss) simp_all
  from assms(5) have "(st', new', acts') =
           (st, new, acts @ (if active (cs ! fst q) \<and> active (cs ! snd q)
                             then [Intersect (cs ! fst q) (cs ! snd q)] else []))"
    unfolding h by (rule sym)
  then have "new' = new" and "acts' = acts @ (if active (cs ! fst q) \<and> active (cs ! snd q)
                    then [Intersect (cs ! fst q) (cs ! snd q)] else [])"
    by (simp_all only: prod.inject)
  then show ?thesis using assms(4) by simp
qed

lemma detectPair_own:
  assumes "pairKey st a i b j = k" and "cs ! i = a" and "cs ! j = b" and "ownKey k a b new"
    and "detectPair cs prev (st, new, acts) (i, j) = (st', new', acts')"
  shows "filter (callsBetween a b) acts' =
           filter (callsBetween a b) acts @
             (if active a \<and> active b \<and> isColliding st a b
              then (if hasKey prev k
                    then [Call a OnCollisionStay b, Call b OnCollisionStay a]
                    else [Call a OnCollisionEnter b, Call b OnCollisionEnter a])
              else []) \<and>
         map_of new' k =
           (if active a \<and> active b \<and> isColliding st a b then Some (a, b) else map_of new k) \<and>
         ownKey k a b new'"
proof (cases "active a \<and> active b \<and> isColliding st a b")
  case True
  have h: "detectPair cs prev (st, new, acts) (i, j) =
           (stepStore cs st (i, j), AList.update k (a, b) new,
            acts @ Intersect a b #
              (if hasKey prev k
               then [Call a OnCollisionStay b, Call b OnCollisionStay a]
               else [Call a OnCollisionEnter b, Call b OnCollisionEnter a]) @
              (if \<not> isTrigger a \<and> \<not> isTrigger b then [Resolve a b] else []))"
    using detectPair_hit [of cs "(i, j)" a b st prev new acts] assms(1,2,3) True by simp
  from assms(5) have "(st', new', acts') =
           (stepStore cs st (i, j), AList.update k (a, b) new,
            acts @ Intersect a b #
              (if hasKey prev k
               then [Call a OnCollisionStay b, Call b OnCollisionStay a]
               else [Call a OnCollisionEnter b, Call b OnCollisionEnter a]) @
              (if \<not> isTrigger a \<and> \<not> isTrigger b then [Resolve a b] else []))"
    unfolding h by (rule sym)
  then have new': "new' = AList.update k (a, b) new"
    and acts': "acts' = acts @ Intersect a b #
              (if hasKey prev k
               then [Call a OnCollisionStay b, Call b OnCollisionStay a]
               else [Call a OnCollisionEnter b, Call b OnCollisionEnter a]) @
              (if \<not> isTrigger a \<and> \<not> isTrigger b then [Resolve a b] else [])"
    by (simp_all only: prod.inject)
  have "filter (callsBetween a b) acts' = filter (callsBetween a b) acts @
          (if hasKey prev k
           then [Call a OnCollisionStay b, Call b OnCollisionStay a]
           else [Call a OnCollisionEnter b, Call b OnCollisionEnter a])"
    by (simp add: acts')
  moreover have "map_of new' k = Some (a, b)"
    by (simp add: new' update_conv')
  moreover have "ownKey k a b new'"
    unfolding new' using assms(4) by (rule ownKey_update_own)
  ultimately show ?thesis using True by simp
next
  case False
  have h: "detectPair cs prev (st, new, acts) (i, j) =
           (st, new, acts @ (if active a \<and> active b then [Intersect a b] else []))"
    using detectPair_miss [of cs "(i, j)" a b st prev new acts] assms(2,3) False by simp
  from assms(5) have "(st', new', acts') =
           (st, new, acts @ (if active a \<and> active b then [Intersect a b] else []))"
    unfolding h by (rule sym)
  then have "new' = new" and "acts' = acts @ (if active a \<and> active b then [Intersect a b] else [])"
    by (simp_all only: prod.inject)
  then show ?thesis using assms(4) False by simp
qed

lemma fold_foreign:
  assumes "\<forall>q \<in> set qs. keyAt cs st0 q \<noteq> k \<and> (cs ! fst q, cs ! snd q) \<noteq> (a, b)
                          \<and> (cs ! fst q, cs ! snd q) \<noteq> (b, a)"
    and "\<forall>g. name (st g) = name (st0 g)" and "ownKey k a b new"
    and "foldl (detectPair cs prev) (st, new, acts) qs = (st', new', acts')"
  shows "filter (callsBetween a b) acts' = filter (callsBetween a b) acts \<and>
         map_of new' k = map_of new k \<and> ownKey k a b new'"
  using assms
proof (induction qs arbitrary: st new acts)
  case Nil
  then show ?case by simp
next
  case (Cons q qs)
  obtain st1 new1 acts1 where step: "detectPair cs prev (st, new, acts) q = (st1, new1, acts1)"
    by (cases "detectPair cs prev (st, new, acts) q") auto
  have key: "pairKey st (cs ! fst q) (fst q) (cs ! snd q) (snd q) \<noteq> k"
    using Cons.prems(1,2) pairKey_names [of st st0] by (simp add: keyAt_def)
  have f: "filter (callsBetween a b) acts1 = filter (callsBetween a b) acts \<and>
           map_of new1 k = map_of new k \<and> ownKey k a b new1"
    using detectPair_foreign [OF key _ _ Cons.prems(3) step] Cons.prems(1) by simp
  have "st1 = stepStore cs st q"
    using step fst_detectPair [of cs prev "(st, new, acts)" q] by simp
  then have names: "\<forall>g. name (st1 g) = name (st0 g)"
    using Cons.prems(2) by (simp add: stepStore_name)
  have "foldl (detectPair cs prev) (st1, new1, acts1) qs = (st', new', acts')"
    using Cons.prems(4) step by simp
  from Cons.IH [OF _ names _ this] f Cons.prems(1) show ?case by simp
qed

lemma exitCalls_Cons:
  "exitCalls (e # m) new =
     (if hasKey new (fst e) then []
      else [Call (fst (snd e)) OnCollisionExit (snd (snd e)),
            Call (snd (snd e)) OnCollisionExit (fst (snd e))]) @ exitCalls m new"
  by (cases e) (simp add: exitCalls_def)


lemma exitCalls_others:
  assumes "\<forall>e \<in> set m. snd e \<noteq> (a, b) \<and> snd e \<noteq> (b, a)"
  shows "filter (callsBetween a b) (exitCalls m new) = []"
  using assms
proof (induction m)
  case Nil
  then show ?case by (simp add: exitCalls_def)
next
  case (Cons e m)
  obtain k' x y where e: "e = (k', x, y)" by (cases e) auto
  from Cons.prems have "(x, y) \<noteq> (a, b)" and "(x, y) \<noteq> (b, a)" by (simp_all add: e)
  then have "\<not> callsBetween a b (Call x OnCollisionExit y)"
    and "\<not> callsBetween a b (Call y OnCollisionExit x)"
    by (simp_all only: callsBetween.simps prod.inject) blast+
  moreover have "filter (callsBetween a b) (exitCalls m new) = []"
    using Cons by simp
  ultimately show ?case by (simp add: exitCalls_Cons e)
qed

section \<open>Detection: inactive colliders\<close>

lemma detectPair_active:
  assumes "\<forall>e \<in> set acts. \<forall>c. mentions c e \<longrightarrow> active c"
    and "\<forall>e \<in> set new. active (fst (snd e)) \<and> active (snd (snd e))"
    and "detectPair cs prev (st, new, acts) p = (st', new', acts')"
  shows "(\<forall>e \<in> set acts'. \<forall>c. mentions c e \<longrightarrow> active c) \<and>
         (\<forall>e \<in> set new'. active (fst (snd e)) \<and> active (snd (snd e)))"
proof (cases "active (cs ! fst p) \<and> active (cs ! snd p) \<and> isColliding st (cs ! fst p) (cs ! snd p)")
  case True
  define x where "x = cs ! fst p"
  define y where "y = cs ! snd p"
  define key where "key = pairKey st x (fst p) y (snd p)"
  have xy: "active x" "active y" using True by (simp_all add: x_def y_def)
  have h: "detectPair cs prev (st, new, acts) p =
           (stepStore cs st p, AList.update key (x, y) new,
            acts @ Intersect x y #
              (if hasKey prev key
               then [Call x OnCollisionStay y, Call y OnCollisionStay x]
               else [Call x OnCollisionEnter y, Call y OnCollisionEnter x]) @
              (if \<not> isTrigger x \<and> \<not> isTrigger y then [Resolve x y] else []))"
    unfolding key_def using True by (intro detectPair_hit) (simp_all add: x_def y_def)
  from assms(3) have "(st', new', acts') =
           (stepStore cs st p, AList.update key (x, y) new,
            acts @ Intersect x y #
              (if hasKey prev key
               then [Call x OnCollisionStay y, Call y OnCollisionStay x]
               else [Call x OnCollisionEnter y, Call y OnCollisionEnter x]) @
              (if \<not> isTrigger x \<and> \<not> isTrigger y then [Resolve x y] else []))"
    unfolding h by (rule sym)
  then have new': "new' = AList.update key (x, y) new"
    and acts': "acts' = acts @ Intersect x y #
              (if hasKey prev key
               then [Call x OnCollisionStay y, Call y OnCollisionStay x]
               else [Call x OnCollisionEnter y, Call y OnCollisionEnter x]) @
              (if \<not> isTrigger x \<and> \<not> isTrigger y then [Resolve x y] else [])"
    by (simp_all only: prod.inject)
  have 1: "\<forall>e \<in> set acts'. \<forall>c. mentions c e \<longrightarrow> active c"
    unfolding acts' using assms(1) xy by auto
  have 2: "\<forall>e \<in> set new'. active (fst (snd e)) \<and> active (snd (snd e))"
  proof
    fix e assume "e \<in> set new'"
    then have "e = (key, (x, y)) \<or> e \<in> set new"
      unfolding new' using set_update_subset [of key "(x, y)" new] by blast
    then show "active (fst (snd e)) \<and> active (snd (snd e))"
    proof
      assume "e = (key, (x, y))"
      then show ?thesis using xy by (simp only: fst_conv snd_conv simp_thms)
    next
      assume "e \<in> set new"
      with assms(2) show ?thesis by (rule bspec)
    qed
  qed
  from 1 2 show ?thesis by (rule conjI)
next
  case False
  have h: "detectPair cs prev (st, new, acts) p =
           (st, new, acts @ (if active (cs ! fst p) \<and> active (cs ! snd p)
                             then [Intersect (cs ! fst p) (cs ! snd p)] else []))"
    using False by (intro detectPair_miss) simp_all
  from assms(3) have "(st', new', acts') =
           (st, new, acts @ (if active (cs ! fst p) \<and> active (cs ! snd p)
                             then [Intersect (cs ! fst p) (cs ! snd p)] else []))"
    unfolding h by (rule sym)
  then have new': "new' = new"
    and acts': "acts' = acts @ (if active (cs ! fst p) \<and> active (cs ! snd p)
                    then [Intersect (cs ! fst p) (cs ! snd p)] else [])"
    by (simp_all only: prod.inject)
  have "\<forall>e \<in> set acts'. \<forall>c. mentions c e \<longrightarrow> active c"
    unfolding acts' using assms(1) by auto
  then show ?thesis using assms(2) unfolding new' by (rule conjI)
qed

lemma fold_active:
  assumes "\<forall>e \<in> set acts. \<forall>c. mentions c e \<longrightarrow> active c"
    and "\<forall>e \<in> set new. active (fst (snd e)) \<and> active (snd (snd e))"
    and "foldl (detectPair cs prev) (st, new, acts) qs = (st', new', acts')"
  shows "(\<forall>e \<in> set acts'. \<forall>c. mentions c e \<longrightarrow> active c) \<and>
         (\<forall>e \<in> set new'. active (fst (snd e)) \<and> active (snd (snd e)))"
  using assms
proof (induction qs arbitrary: st new acts)
  case Nil
  then show ?case by simp
next
  case (Cons q qs)
  obtain st1 new1 acts1 where step: "detectPair cs prev (st, new, acts) q = (st1, new1, acts1)"
    by (cases "detectPair cs prev (st, new, acts) q") auto
  note a = detectPair_active [OF Cons.prems(1,2) step]
  have "foldl (detectPair cs prev) (st1, new1, acts1) qs = (st', new', acts')"
    using Cons.prems(3) step by simp
  from Cons.IH [OF _ _ this] a show ?case by blast
qed

lemma exitCalls_isExit: "\<forall>e \<in> set (exitCalls prev new). isExit e"
  by (induction prev) (simp_all add: exitCalls_Cons, simp add: exitCalls_def)

text \<open>
  C9, as the code has it. The flag that is tested is the collider's own \<open>active\<close> (from
  \<open>Component\<close>). A collider whose \<open>active\<close> is false is skipped by the pass: no
  intersection test, no enter or stay callback and no call of the resolver involves it
  (the only actions that can involve it are exit callbacks from the previous table),
  and the new contact table holds no pair with it.
\<close>

theorem inactive_collider_skipped:
  assumes "detectCollisions ph st = (ph', st', acts)" and "\<not> active c"
  shows "(\<forall>e \<in> set acts. mentions c e \<longrightarrow> isExit e) \<and>
         (\<forall>e \<in> set (collisionMatrix ph'). fst (snd e) \<noteq> c \<and> snd (snd e) \<noteq> c)"
proof -
  obtain st1 new1 acts1 where
    r: "foldl (detectPair (colliders ph) (collisionMatrix ph)) (st, [], [])
          (pairs (length (colliders ph))) = (st1, new1, acts1)"
    by (cases "foldl (detectPair (colliders ph) (collisionMatrix ph)) (st, [], [])
                 (pairs (length (colliders ph)))") auto
  have ph': "ph' = ph\<lparr>collisionMatrix := new1\<rparr>"
    and acts: "acts = acts1 @ exitCalls (collisionMatrix ph) new1"
    using assms(1) r by (simp_all add: detectCollisions_def)
  have "(\<forall>e \<in> set acts1. \<forall>c. mentions c e \<longrightarrow> active c) \<and>
        (\<forall>e \<in> set new1. active (fst (snd e)) \<and> active (snd (snd e)))"
    by (rule fold_active [OF _ _ r]) simp_all
  then have a1: "\<forall>e \<in> set acts1. \<not> mentions c e"
    and n1: "\<forall>e \<in> set new1. fst (snd e) \<noteq> c \<and> snd (snd e) \<noteq> c"
    using assms(2) by blast+
  have "\<forall>e \<in> set acts. mentions c e \<longrightarrow> isExit e"
    unfolding acts using a1 exitCalls_isExit [of "collisionMatrix ph" new1] by auto
  then show ?thesis using n1 by (simp add: ph')
qed

theorem inactive_collider_skipped_witness:
  "\<not> active (box_b\<lparr>active := False\<rparr>) \<and>
   detectCollisions (newPhysics\<lparr>colliders := [box_a, box_b\<lparr>active := False\<rparr>, box_c]\<rparr>) named_store
     = (newPhysics\<lparr>colliders := [box_a, box_b\<lparr>active := False\<rparr>, box_c],
                   collisionMatrix := [(''player-enemy'', box_a, box_c)]\<rparr>,
        named_store,
        [Intersect box_a box_c, Call box_a OnCollisionEnter box_c,
         Call box_c OnCollisionEnter box_a, Resolve box_a box_c]) \<and>
   filter (mentions (box_b\<lparr>active := False\<rparr>))
     [Intersect box_a box_c, Call box_a OnCollisionEnter box_c,
      Call box_c OnCollisionEnter box_a, Resolve box_a box_c] = [] \<and>
   box_a \<noteq> box_b\<lparr>active := False\<rparr> \<and> box_c \<noteq> box_b\<lparr>active := False\<rparr>"
proof -
  have i: "\<not> active (box_b\<lparr>active := False\<rparr>)" by simp
  have d: "detectCollisions (newPhysics\<lparr>colliders := [box_a, box_b\<lparr>active := False\<rparr>, box_c]\<rparr>)
             named_store
     = (newPhysics\<lparr>colliders := [box_a, box_b\<lparr>active := False\<rparr>, box_c],
                   collisionMatrix := [(''player-enemy'', box_a, box_c)]\<rparr>,
        named_store,
        [Intersect box_a box_c, Call box_a OnCollisionEnter box_c,
         Call box_c OnCollisionEnter box_a, Resolve box_a box_c])"
    by (simp add: detect_eval box_fields named_store_def)
  note t = inactive_collider_skipped [OF d i]
  have "filter (mentions (box_b\<lparr>active := False\<rparr>))
     [Intersect box_a box_c, Call box_a OnCollisionEnter box_c,
      Call box_c OnCollisionEnter box_a, Resolve box_a box_c] = [] \<and>
   box_a \<noteq> box_b\<lparr>active := False\<rparr> \<and> box_c \<noteq> box_b\<lparr>active := False\<rparr>"
    using t by auto
  then show ?thesis
    using i d by blast
qed

text \<open>
  C9, as the claim has it, fails: the owning game object's \<open>active\<close> flag is not
  consulted. A collider that is active on an inactive game object is tested, gets
  \<open>onCollisionEnter\<close> and is passed to the resolver.
\<close>

theorem inactive_owner_counterexample:
  "\<not> go_active (idle_store (gameObject box_b)) \<and> active box_b \<and>
   detectCollisions world2 idle_store
     = (world2\<lparr>collisionMatrix := [(''0-1'', box_a, box_b)]\<rparr>, idle_store,
        [Intersect box_a box_b, Call box_a OnCollisionEnter box_b,
         Call box_b OnCollisionEnter box_a, Resolve box_a box_b])"
  by (simp add: detect_eval box_fields world2_def idle_store_def)

section \<open>Detection: exits\<close>

lemma ownKey_Cons:
  assumes "ownKey k a b (e # m)"
  shows "ownKey k a b m" and "fst e = k \<longrightarrow> snd e = (a, b)"
    and "snd e = (a, b) \<or> snd e = (b, a) \<longrightarrow> fst e = k"
    and "fst e = k \<longrightarrow> (\<forall>e' \<in> set m. fst e' \<noteq> k)"
proof -
  from assms have d: "distinct (map fst (e # m))"
    unfolding ownKey_def by (rule conjunct1)
  from assms have all: "\<forall>e' \<in> set (e # m). (fst e' = k \<longrightarrow> snd e' = (a, b)) \<and>
                     (snd e' = (a, b) \<or> snd e' = (b, a) \<longrightarrow> fst e' = k)"
    unfolding ownKey_def by (rule conjunct2)
  from d have d': "distinct (map fst m)" and ne: "fst e \<notin> fst ` set m"
    by simp_all
  have ein: "e \<in> set (e # m)" by (rule list.set_intros(1))
  from all ein show "fst e = k \<longrightarrow> snd e = (a, b)" by blast
  from all ein show "snd e = (a, b) \<or> snd e = (b, a) \<longrightarrow> fst e = k" by blast
  have "\<forall>e' \<in> set m. (fst e' = k \<longrightarrow> snd e' = (a, b)) \<and>
                     (snd e' = (a, b) \<or> snd e' = (b, a) \<longrightarrow> fst e' = k)"
  proof
    fix e' assume "e' \<in> set m"
    then have "e' \<in> set (e # m)" by (rule list.set_intros(2))
    with all show "(fst e' = k \<longrightarrow> snd e' = (a, b)) \<and>
                     (snd e' = (a, b) \<or> snd e' = (b, a) \<longrightarrow> fst e' = k)" by (rule bspec)
  qed
  with d' show "ownKey k a b m" unfolding ownKey_def by (rule conjI)
  show "fst e = k \<longrightarrow> (\<forall>e' \<in> set m. fst e' \<noteq> k)"
  proof (intro impI ballI notI)
    fix e' assume 1: "fst e = k" and 2: "e' \<in> set m" and 3: "fst e' = k"
    from 2 have "fst e' \<in> fst ` set m" by (rule imageI)
    with 1 3 have "fst e \<in> fst ` set m" by (simp only:)
    with ne show False by (rule notE)
  qed
qed

lemma callsBetween_exit:
  "callsBetween a b (Call (fst v) cb (snd v)) = (v = (a, b) \<or> v = (b, a))"
  "callsBetween a b (Call (snd v) cb (fst v)) = (v = (a, b) \<or> v = (b, a))"
  by (cases v; simp only: callsBetween.simps prod.inject fst_conv snd_conv; blast)+

lemma hasKey_Cons: "hasKey (e # m) k = (fst e = k \<or> hasKey m k)"
  by (cases e) (simp add: hasKey_def)

lemma hasKey_iff: "hasKey m k = (k \<in> fst ` set m)"
  by (simp add: hasKey_def map_of_eq_None_iff)

lemma exitCalls_pair:
  assumes "ownKey k a b prev"
  shows "filter (callsBetween a b) (exitCalls prev new) =
           (if hasKey prev k \<and> \<not> hasKey new k
            then [Call a OnCollisionExit b, Call b OnCollisionExit a] else [])"
  using assms
proof (induction prev)
  case Nil
  then show ?case by (simp add: exitCalls_def hasKey_def)
next
  case (Cons e m)
  note o = ownKey_Cons [OF Cons.prems]
  show ?case
  proof (cases "fst e = k")
    case True
    have v: "snd e = (a, b)" using o(2) True by blast
    have nk: "\<forall>e' \<in> set m. fst e' \<noteq> k" using o(4) True by blast
    have "\<forall>e' \<in> set m. snd e' \<noteq> (a, b) \<and> snd e' \<noteq> (b, a)"
      using o(1) nk unfolding ownKey_def by blast
    then have rest: "filter (callsBetween a b) (exitCalls m new) = []"
      by (rule exitCalls_others)
    have hk: "hasKey (e # m) k" using True by (simp only: hasKey_Cons simp_thms)
    have cb: "callsBetween a b (Call a OnCollisionExit b)"
      "callsBetween a b (Call b OnCollisionExit a)"
      by (simp_all only: callsBetween.simps simp_thms)
    have "filter (callsBetween a b) (exitCalls (e # m) new)
            = (if hasKey new k then []
               else [Call a OnCollisionExit b, Call b OnCollisionExit a])"
      unfolding exitCalls_Cons filter_append rest True v fst_conv snd_conv
      using cb by (cases "hasKey new k") (simp_all only: append_Nil2 filter.simps if_True if_False)
    then show ?thesis using hk by (simp only: simp_thms if_True if_False split: if_splits)
  next
    case False
    have "\<not> (snd e = (a, b) \<or> snd e = (b, a))" using o(3) False by blast
    then have cb: "\<not> callsBetween a b (Call (fst (snd e)) OnCollisionExit (snd (snd e)))"
      "\<not> callsBetween a b (Call (snd (snd e)) OnCollisionExit (fst (snd e)))"
      by (simp_all only: callsBetween_exit not_False_eq_True)
    have hk: "hasKey (e # m) k = hasKey m k"
      using False by (simp only: hasKey_Cons simp_thms)
    have "filter (callsBetween a b) (exitCalls (e # m) new)
            = filter (callsBetween a b) (exitCalls m new)"
      unfolding exitCalls_Cons filter_append using cb
      by (cases "hasKey new (fst e)") (simp_all only: filter.simps if_True if_False append_Nil)
    then show ?thesis using Cons.IH [OF o(1)] hk by (simp only:)
  qed
qed

lemma exitCalls_member:
  assumes "(k, a, b) \<in> set prev" and "\<not> hasKey new k"
  shows "Call a OnCollisionExit b \<in> set (exitCalls prev new) \<and>
         Call b OnCollisionExit a \<in> set (exitCalls prev new)"
  using assms
proof (induction prev)
  case Nil
  then show ?case by simp
next
  case (Cons e m)
  from Cons.prems(1) have "e = (k, a, b) \<or> (k, a, b) \<in> set m"
    by (simp only: list.set insert_iff) blast
  then show ?case
  proof
    assume "e = (k, a, b)"
    then have "fst e = k" and "fst (snd e) = a" and "snd (snd e) = b"
      by (simp_all only: fst_conv snd_conv)
    then show ?thesis using Cons.prems(2) by (simp add: exitCalls_Cons)
  next
    assume "(k, a, b) \<in> set m"
    from Cons.IH [OF this Cons.prems(2)] show ?thesis
      by (simp only: exitCalls_Cons set_append Un_iff simp_thms)
  qed
qed

text \<open>
  \<open>removeCollider\<close> leaves the contact table as it was, and the exit loop of the next
  pass goes through that stored table: an entry under the key \<open>k\<close> gets
  \<open>onCollisionExit\<close> for both its colliders, registered or not, whenever the new table
  of the pass has no entry under \<open>k\<close>; when every collider was registered once, the
  removed one is no longer registered.
\<close>

lemma stored_pair_exit:
  assumes "(k, a, b) \<in> set (collisionMatrix ph)"
    and "detectCollisions (removeCollider c ph) st = (ph', st', acts)"
    and "\<not> hasKey (collisionMatrix ph') k"
  shows "Call a OnCollisionExit b \<in> set acts \<and> Call b OnCollisionExit a \<in> set acts \<and>
         (distinct (colliders ph) \<longrightarrow> c \<notin> set (colliders ph'))"
proof -
  let ?ph = "removeCollider c ph"
  obtain st1 new1 acts1 where
    r: "foldl (detectPair (colliders ?ph) (collisionMatrix ?ph)) (st, [], [])
          (pairs (length (colliders ?ph))) = (st1, new1, acts1)"
    by (cases "foldl (detectPair (colliders ?ph) (collisionMatrix ?ph)) (st, [], [])
                 (pairs (length (colliders ?ph)))") auto
  have ph': "ph' = ?ph\<lparr>collisionMatrix := new1\<rparr>"
    and acts: "acts = acts1 @ exitCalls (collisionMatrix ?ph) new1"
    using assms(2) r by (simp_all add: detectCollisions_def)
  have kept: "collisionMatrix ?ph = collisionMatrix ph"
    by (simp add: removeCollider_def)
  have "\<not> hasKey new1 k" using assms(3) by (simp add: ph')
  from exitCalls_member [OF assms(1) this]
  have "Call a OnCollisionExit b \<in> set acts \<and> Call b OnCollisionExit a \<in> set acts"
    by (simp add: acts kept)
  moreover have "distinct (colliders ph) \<longrightarrow> c \<notin> set (colliders ph')"
    by (simp add: ph' removeCollider_def)
  ultimately show ?thesis by blast
qed

lemma contact3_pass:
  "detectCollisions world3 chain_store
     = (contact3, chain_store,
        [Intersect box_a box_b, Call box_a OnCollisionEnter box_b,
         Call box_b OnCollisionEnter box_a, Resolve box_a box_b,
         Intersect box_a box_c,
         Intersect box_b box_c, Call box_b OnCollisionEnter box_c,
         Call box_c OnCollisionEnter box_b, Resolve box_b box_c])"
  by (simp add: contact3_def detect_eval box_fields world3_def chain_store_def)

text \<open>
  So it is when the last of three boxes in a row is unregistered: the pair of the second
  and third box, stored under \<open>1-2\<close>, gets its exit, the removed box included.
\<close>

lemma stored_pair_exit_example:
  "(''1-2'', box_b, box_c) \<in> set (collisionMatrix contact3) \<and>
   detectCollisions (removeCollider box_c contact3) chain_store
     = (contact3\<lparr>colliders := [box_a, box_b], collisionMatrix := [(''0-1'', box_a, box_b)]\<rparr>,
        chain_store,
        [Intersect box_a box_b, Call box_a OnCollisionStay box_b,
         Call box_b OnCollisionStay box_a, Resolve box_a box_b,
         Call box_b OnCollisionExit box_c, Call box_c OnCollisionExit box_b]) \<and>
   \<not> hasKey [(''0-1'', box_a, box_b)] ''1-2'' \<and>
   Call box_c OnCollisionExit box_b
     \<in> set [Intersect box_a box_b, Call box_a OnCollisionStay box_b,
           Call box_b OnCollisionStay box_a, Resolve box_a box_b,
           Call box_b OnCollisionExit box_c, Call box_c OnCollisionExit box_b] \<and>
   distinct (colliders contact3) \<and> box_c \<notin> set [box_a, box_b]"
proof -
  have m: "(''1-2'', box_b, box_c) \<in> set (collisionMatrix contact3)"
    by (simp add: contact3_def)
  have d: "detectCollisions (removeCollider box_c contact3) chain_store
     = (contact3\<lparr>colliders := [box_a, box_b], collisionMatrix := [(''0-1'', box_a, box_b)]\<rparr>,
        chain_store,
        [Intersect box_a box_b, Call box_a OnCollisionStay box_b,
         Call box_b OnCollisionStay box_a, Resolve box_a box_b,
         Call box_b OnCollisionExit box_c, Call box_c OnCollisionExit box_b])"
    by (simp add: contact3_def removeCollider_def detect_eval box_fields world3_def chain_store_def)
  have h: "\<not> hasKey (collisionMatrix (contact3\<lparr>colliders := [box_a, box_b],
                      collisionMatrix := [(''0-1'', box_a, box_b)]\<rparr>)) ''1-2''"
    by (simp add: hasKey_def)
  have dc: "distinct (colliders contact3)"
    by (simp add: contact3_def world3_def newPhysics_def box_fields)
  show ?thesis
    using stored_pair_exit [OF m d h] m d h dc by simp
qed

text \<open>
  C10 fails on the code when a remaining pair takes over the key of the removed
  collider's pair. Three unnamed boxes in a row: the table after the first pass holds the
  first and second box under \<open>0-1\<close> and the second and third under \<open>1-2\<close>. The first
  box is unregistered while its pair is in the stored table. In the next pass the second
  and third box, still overlapping, have the key \<open>0-1\<close>: they get \<open>onCollisionStay\<close>,
  the key \<open>0-1\<close> is in the new table, and no \<open>onCollisionExit\<close> reaches the removed
  box or its partner; the exit of that pass goes to the second and third box, whose old
  key \<open>1-2\<close> is gone, although they still overlap.
\<close>

theorem removed_collider_no_exit:
  "detectCollisions world3 chain_store
     = (contact3, chain_store,
        [Intersect box_a box_b, Call box_a OnCollisionEnter box_b,
         Call box_b OnCollisionEnter box_a, Resolve box_a box_b,
         Intersect box_a box_c,
         Intersect box_b box_c, Call box_b OnCollisionEnter box_c,
         Call box_c OnCollisionEnter box_b, Resolve box_b box_c]) \<and>
   (''0-1'', box_a, box_b) \<in> set (collisionMatrix contact3) \<and>
   detectCollisions (removeCollider box_a contact3) chain_store
     = (contact3\<lparr>colliders := [box_b, box_c], collisionMatrix := [(''0-1'', box_b, box_c)]\<rparr>,
        chain_store,
        [Intersect box_b box_c, Call box_b OnCollisionStay box_c,
         Call box_c OnCollisionStay box_b, Resolve box_b box_c,
         Call box_b OnCollisionExit box_c, Call box_c OnCollisionExit box_b]) \<and>
   Call box_a OnCollisionExit box_b
     \<notin> set [Intersect box_b box_c, Call box_b OnCollisionStay box_c,
           Call box_c OnCollisionStay box_b, Resolve box_b box_c,
           Call box_b OnCollisionExit box_c, Call box_c OnCollisionExit box_b] \<and>
   Call box_b OnCollisionExit box_a
     \<notin> set [Intersect box_b box_c, Call box_b OnCollisionStay box_c,
           Call box_c OnCollisionStay box_b, Resolve box_b box_c,
           Call box_b OnCollisionExit box_c, Call box_c OnCollisionExit box_b]"
proof -
  have m: "(''0-1'', box_a, box_b) \<in> set (collisionMatrix contact3)"
    by (simp add: contact3_def)
  have d: "detectCollisions (removeCollider box_a contact3) chain_store
     = (contact3\<lparr>colliders := [box_b, box_c], collisionMatrix := [(''0-1'', box_b, box_c)]\<rparr>,
        chain_store,
        [Intersect box_b box_c, Call box_b OnCollisionStay box_c,
         Call box_c OnCollisionStay box_b, Resolve box_b box_c,
         Call box_b OnCollisionExit box_c, Call box_c OnCollisionExit box_b])"
    by (simp add: contact3_def removeCollider_def detect_eval box_fields world3_def chain_store_def)
  have n: "Call box_a OnCollisionExit box_b
     \<notin> set [Intersect box_b box_c, Call box_b OnCollisionStay box_c,
           Call box_c OnCollisionStay box_b, Resolve box_b box_c,
           Call box_b OnCollisionExit box_c, Call box_c OnCollisionExit box_b]"
    "Call box_b OnCollisionExit box_a
     \<notin> set [Intersect box_b box_c, Call box_b OnCollisionStay box_c,
           Call box_c OnCollisionStay box_b, Resolve box_b box_c,
           Call box_b OnCollisionExit box_c, Call box_c OnCollisionExit box_b]"
    by (simp_all add: box_fields)
  show ?thesis using contact3_pass m d n by blast
qed

section \<open>Detection: the event lifecycle of a pair\<close>

lemma pass_pair:
  assumes sp: "stablePair k a b (cs, st0)"
    and run: "foldl (detectPair cs prev) (st0, [], []) (pairs (length cs)) = (st', new', acts')"
  shows "filter (callsBetween a b) acts' =
           (if overlapsInPass a b (cs, st0)
            then (if hasKey prev k
                  then [Call a OnCollisionStay b, Call b OnCollisionStay a]
                  else [Call a OnCollisionEnter b, Call b OnCollisionEnter a])
            else []) \<and>
         map_of new' k = (if overlapsInPass a b (cs, st0) then Some (a, b) else None) \<and>
         ownKey k a b new'"
proof -
  define i where "i = indexOf a cs"
  define j where "j = indexOf b cs"
  define p where "p = (i, j)"
  from sp have d: "distinct cs" and ain: "a \<in> set cs" and bin: "b \<in> set cs" and ij: "i < j"
    and key: "keyAt cs st0 p = k"
    and others: "\<forall>q \<in> set (pairs (length cs)). q \<noteq> p \<longrightarrow> keyAt cs st0 q \<noteq> k"
    by (simp_all add: stablePair_def i_def j_def p_def)
  have jn: "j < length cs" and csi: "cs ! i = a" and csj: "cs ! j = b"
    using ain bin by (simp_all add: i_def j_def indexOf_less nth_indexOf)
  have pin: "p \<in> set (pairs (length cs))"
    using ij jn by (simp add: set_pairs p_def)
  then obtain xs zs where split: "pairs (length cs) = xs @ p # zs" and pxs: "p \<notin> set xs"
    by (meson split_list_first)
  have pzs: "p \<notin> set zs"
    using distinct_pairs [of "length cs"] split by simp
  have tw: "takeWhile (\<lambda>q. q \<noteq> p) (pairs (length cs)) = xs"
    using pxs by (simp add: split takeWhile_upto)
  have foreign: "keyAt cs st0 q \<noteq> k \<and> (cs ! fst q, cs ! snd q) \<noteq> (a, b)
                   \<and> (cs ! fst q, cs ! snd q) \<noteq> (b, a)"
    if q: "q \<in> set (pairs (length cs))" and qp: "q \<noteq> p" for q
  proof -
    from q have q1: "fst q < snd q" and q2: "snd q < length cs"
      by (auto simp: set_pairs)
    then have q0: "fst q < length cs" by simp
    have "(cs ! fst q, cs ! snd q) \<noteq> (a, b)"
    proof
      assume "(cs ! fst q, cs ! snd q) = (a, b)"
      then have "cs ! fst q = cs ! i" and "cs ! snd q = cs ! j"
        using csi csj by (simp_all only: prod.inject)
      then have "fst q = i" and "snd q = j"
        using d q0 q2 ij jn by (simp_all add: nth_eq_iff_index_eq)
      then have "q = p" by (simp add: p_def prod_eq_iff)
      with qp show False by simp
    qed
    moreover have "(cs ! fst q, cs ! snd q) \<noteq> (b, a)"
    proof
      assume "(cs ! fst q, cs ! snd q) = (b, a)"
      then have "cs ! fst q = cs ! j" and "cs ! snd q = cs ! i"
        using csi csj by (simp_all only: prod.inject)
      then have "fst q = j" and "snd q = i"
        using d q0 q2 ij jn by (simp_all add: nth_eq_iff_index_eq)
      with q1 ij show False by simp
    qed
    ultimately show ?thesis using others q qp by blast
  qed
  have fxs: "\<forall>q \<in> set xs. keyAt cs st0 q \<noteq> k \<and> (cs ! fst q, cs ! snd q) \<noteq> (a, b)
                   \<and> (cs ! fst q, cs ! snd q) \<noteq> (b, a)"
    using foreign pxs split by (metis in_set_conv_decomp Un_iff set_append list.set_intros(2))
  have fzs: "\<forall>q \<in> set zs. keyAt cs st0 q \<noteq> k \<and> (cs ! fst q, cs ! snd q) \<noteq> (a, b)
                   \<and> (cs ! fst q, cs ! snd q) \<noteq> (b, a)"
    using foreign pzs split by (metis Un_iff set_append list.set_intros(2))
  have empty: "ownKey k a b []" by (simp add: ownKey_def)
  obtain st1 new1 acts1 where r1: "foldl (detectPair cs prev) (st0, [], []) xs = (st1, new1, acts1)"
    by (cases "foldl (detectPair cs prev) (st0, [], []) xs") auto
  have s1: "filter (callsBetween a b) acts1 = [] \<and> map_of new1 k = None \<and> ownKey k a b new1"
    using fold_foreign [OF fxs _ empty r1] by simp
  have st1: "st1 = storeBefore cs st0 p"
    using r1 fst_fold_detectPair [of cs prev "(st0, [], [])" xs] by (simp add: storeBefore_def tw)
  have names1: "\<forall>g. name (st1 g) = name (st0 g)"
    by (simp add: st1 storeBefore_def fold_stepStore_name)
  have key1: "pairKey st1 a i b j = k"
    using key pairKey_names [of st1 st0 a i b j] names1 csi csj by (simp add: keyAt_def p_def)
  obtain st2 new2 acts2 where r2: "detectPair cs prev (st1, new1, acts1) (i, j) = (st2, new2, acts2)"
    by (cases "detectPair cs prev (st1, new1, acts1) (i, j)") auto
  have ov: "overlapsInPass a b (cs, st0) = (active a \<and> active b \<and> isColliding st1 a b)"
    by (simp add: overlapsInPass_def st1 p_def i_def j_def)
  have s2: "filter (callsBetween a b) acts2 =
             (if overlapsInPass a b (cs, st0)
              then (if hasKey prev k
                    then [Call a OnCollisionStay b, Call b OnCollisionStay a]
                    else [Call a OnCollisionEnter b, Call b OnCollisionEnter a])
              else []) \<and>
         map_of new2 k = (if overlapsInPass a b (cs, st0) then Some (a, b) else None) \<and>
         ownKey k a b new2"
    using detectPair_own [OF key1 csi csj _ r2] s1 unfolding ov by simp
  have "st2 = stepStore cs st1 (i, j)"
    using r2 fst_detectPair [of cs prev "(st1, new1, acts1)" "(i, j)"] by simp
  then have names2: "\<forall>g. name (st2 g) = name (st0 g)"
    using names1 by (simp add: stepStore_name)
  have r3: "foldl (detectPair cs prev) (st2, new2, acts2) zs = (st', new', acts')"
    using run r1 r2 by (simp add: split p_def)
  have s3: "filter (callsBetween a b) acts' = filter (callsBetween a b) acts2 \<and>
            map_of new' k = map_of new2 k \<and> ownKey k a b new'"
    using fold_foreign [OF fzs names2 _ r3] s2 by blast
  show ?thesis using s2 s3 by simp
qed

lemma tick_pair:
  assumes "ownKey k a b (collisionMatrix ph)" and "stablePair k a b w"
    and "detectCollisions (ph\<lparr>colliders := fst w\<rparr>) (snd w) = (ph', st', acts)"
  shows "[filter (callsBetween a b) acts]
           = lifecycle a b (hasKey (collisionMatrix ph) k) [overlapsInPass a b w] \<and>
         ownKey k a b (collisionMatrix ph') \<and>
         hasKey (collisionMatrix ph') k = overlapsInPass a b w"
proof -
  obtain st1 new1 acts1 where
    r: "foldl (detectPair (fst w) (collisionMatrix ph)) (snd w, [], []) (pairs (length (fst w)))
          = (st1, new1, acts1)"
    by (cases "foldl (detectPair (fst w) (collisionMatrix ph)) (snd w, [], [])
                 (pairs (length (fst w)))") auto
  have sp: "stablePair k a b (fst w, snd w)" using assms(2) by simp
  note p = pass_pair [OF sp r]
  have ph': "ph' = ph\<lparr>colliders := fst w, collisionMatrix := new1\<rparr>"
    and acts: "acts = acts1 @ exitCalls (collisionMatrix ph) new1"
    using assms(3) r by (simp_all add: detectCollisions_def)
  have hk: "hasKey new1 k = overlapsInPass a b w"
    using p by (simp add: hasKey_def)
  have "filter (callsBetween a b) acts =
          filter (callsBetween a b) acts1 @
          (if hasKey (collisionMatrix ph) k \<and> \<not> hasKey new1 k
            then [Call a OnCollisionExit b, Call b OnCollisionExit a] else [])"
    by (simp add: acts exitCalls_pair [OF assms(1)])
  then have "[filter (callsBetween a b) acts]
           = lifecycle a b (hasKey (collisionMatrix ph) k) [overlapsInPass a b w]"
    using p hk by simp
  then show ?thesis using p hk by (simp add: ph')
qed

lemma lifecycle_Cons:
  "lifecycle a b c (ov # ovs) = lifecycle a b c [ov] @ lifecycle a b ov ovs"
  by simp


lemma run_lifecycle:
  assumes "ownKey k a b (collisionMatrix ph)" and "\<forall>w \<in> set ws. stablePair k a b w"
  shows "map (filter (callsBetween a b)) (detectRun ph ws)
           = lifecycle a b (hasKey (collisionMatrix ph) k) (map (overlapsInPass a b) ws)"
  using assms
proof (induction ws arbitrary: ph)
  case Nil
  then show ?case by simp
next
  case (Cons w ws)
  obtain ph' st' acts where
    d: "detectCollisions (ph\<lparr>colliders := fst w\<rparr>) (snd w) = (ph', st', acts)"
    by (cases "detectCollisions (ph\<lparr>colliders := fst w\<rparr>) (snd w)") auto
  have sw: "stablePair k a b w" using Cons.prems(2) by simp
  note t = tick_pair [OF Cons.prems(1) sw d]
  have o': "ownKey k a b (collisionMatrix ph')" using t by blast
  have h': "hasKey (collisionMatrix ph') k = overlapsInPass a b w" using t by blast
  have first: "[filter (callsBetween a b) acts]
           = lifecycle a b (hasKey (collisionMatrix ph) k) [overlapsInPass a b w]" using t by blast
  have "map (filter (callsBetween a b)) (detectRun ph' ws)
           = lifecycle a b (overlapsInPass a b w) (map (overlapsInPass a b) ws)"
    using Cons.IH [OF o'] Cons.prems(2) h' by simp
  then have "map (filter (callsBetween a b)) (detectRun ph (w # ws))
           = [filter (callsBetween a b) acts]
               @ lifecycle a b (overlapsInPass a b w) (map (overlapsInPass a b) ws)"
    using d by simp
  also have "\<dots> = lifecycle a b (hasKey (collisionMatrix ph) k)
                     (overlapsInPass a b w # map (overlapsInPass a b) ws)"
    unfolding first by (rule lifecycle_Cons [symmetric])
  finally show ?case by simp
qed

lemma lifecycle_stay:
  "lifecycle a b True (replicate n True @ ovs)
     = replicate n [Call a OnCollisionStay b, Call b OnCollisionStay a] @ lifecycle a b True ovs"
  by (induction n) simp_all


lemma lifecycle_apart: "lifecycle a b False (replicate m False) = replicate m []"
  by (induction m) simp_all


lemma lifecycle_exit:
  "lifecycle a b True (replicate m False)
     = (if m = 0 then []
        else [Call a OnCollisionExit b, Call b OnCollisionExit a] # replicate (m - 1) [])"
  by (cases m) (simp_all add: lifecycle_apart)


lemma map_all: "\<forall>x \<in> set xs. f x = c \<Longrightarrow> map f xs = replicate (length xs) c"
  by (induction xs) simp_all


lemma notInContact_ownKey:
  assumes "notInContact k a b m"
  shows "ownKey k a b m \<and> \<not> hasKey m k"
proof -
  from assms have d: "distinct (map fst m)"
    and all: "\<forall>e \<in> set m. fst e \<noteq> k \<and> snd e \<noteq> (a, b) \<and> snd e \<noteq> (b, a)"
    unfolding notInContact_def by blast+
  have "\<forall>e \<in> set m. (fst e = k \<longrightarrow> snd e = (a, b)) \<and>
                     (snd e = (a, b) \<or> snd e = (b, a) \<longrightarrow> fst e = k)"
    using all by blast
  with d have "ownKey k a b m" unfolding ownKey_def by (rule conjI)
  moreover have "\<not> hasKey m k"
    using all unfolding hasKey_iff by blast
  ultimately show ?thesis by (rule conjI)
qed

text \<open>
  Where the key of a pair stays what it was, the lifecycle is the documented one. Take two
  colliders \<open>a\<close> and \<open>b\<close> (as values: none of their own fields changes during the run)
  and a key \<open>k\<close>. Before the first tick the contact table has no entry under \<open>k\<close> and
  no entry for the pair, in either order. On every tick of the run each collider is
  registered once, \<open>a\<close> before \<open>b\<close>, the key of the pair is \<open>k\<close>, and no other pair
  of that tick has the key \<open>k\<close>. The pass finds the pair overlapping on the ticks \<open>ovl\<close>
  (at least one) and not on the ticks \<open>sep\<close> after them. Then the callbacks between the
  two are: on the first tick \<open>onCollisionEnter\<close> to both, once; on every later
  overlapping tick \<open>onCollisionStay\<close> to both; on the first separated tick
  \<open>onCollisionExit\<close> to both, once; on the later separated ticks nothing.
\<close>

lemma lifecycle_stable_key:
  assumes "notInContact k a b (collisionMatrix ph)"
    and "\<forall>w \<in> set (ovl @ sep). stablePair k a b w"
    and "\<forall>w \<in> set ovl. overlapsInPass a b w"
    and "\<forall>w \<in> set sep. \<not> overlapsInPass a b w"
    and "ovl \<noteq> []"
  shows "map (filter (callsBetween a b)) (detectRun ph (ovl @ sep)) =
           [Call a OnCollisionEnter b, Call b OnCollisionEnter a]
           # replicate (length ovl - 1) [Call a OnCollisionStay b, Call b OnCollisionStay a]
           @ (if sep = [] then []
              else [Call a OnCollisionExit b, Call b OnCollisionExit a]
                   # replicate (length sep - 1) [])"
proof -
  from notInContact_ownKey [OF assms(1)]
  have o: "ownKey k a b (collisionMatrix ph)" and h: "\<not> hasKey (collisionMatrix ph) k"
    by simp_all
  obtain n where n: "length ovl = Suc n" using assms(5) by (cases ovl) auto
  have "map (overlapsInPass a b) (ovl @ sep)
          = replicate (length ovl) True @ replicate (length sep) False"
    using map_all [of ovl "overlapsInPass a b" True] map_all [of sep "overlapsInPass a b" False]
      assms(3,4) by simp
  then have "map (filter (callsBetween a b)) (detectRun ph (ovl @ sep))
          = lifecycle a b False (replicate (length ovl) True @ replicate (length sep) False)"
    using run_lifecycle [OF o assms(2)] h by simp
  also have "\<dots> = [Call a OnCollisionEnter b, Call b OnCollisionEnter a]
                   # lifecycle a b True (replicate n True @ replicate (length sep) False)"
    by (simp add: n)
  also have "lifecycle a b True (replicate n True @ replicate (length sep) False)
          = replicate n [Call a OnCollisionStay b, Call b OnCollisionStay a]
            @ (if length sep = 0 then []
               else [Call a OnCollisionExit b, Call b OnCollisionExit a]
                    # replicate (length sep - 1) [])"
    by (simp only: lifecycle_stay lifecycle_exit)
  finally show ?thesis by (simp add: n)
qed

lemma touch_stable: "stablePair ''0-1'' box_a box_b touch_tick"
  by (simp add: stablePair_def touch_tick_def box_fields keyAt_def pairs_2 pairKey_def nameOr_def
      show_nat_digit digit_char_def chain_store_def newGameObject_def)

lemma apart_stable: "stablePair ''0-1'' box_a box_b apart_tick"
  by (simp add: stablePair_def apart_tick_def box_fields keyAt_def pairs_2 pairKey_def nameOr_def
      show_nat_digit digit_char_def apart_store_def newGameObject_def)

lemma touch_overlaps: "overlapsInPass box_a box_b touch_tick"
  by (simp add: overlapsInPass_def touch_tick_def box_fields storeBefore_def pairs_2
      isColliding_def boxIntersects_def getBounds_def getWorldPosition_def chain_store_def
      newGameObject_def)

lemma apart_separate: "\<not> overlapsInPass box_a box_b apart_tick"
  by (simp add: overlapsInPass_def apart_tick_def box_fields storeBefore_def pairs_2
      isColliding_def boxIntersects_def getBounds_def getWorldPosition_def apart_store_def
      newGameObject_def)

text \<open>
  So it is for two unnamed boxes registered alone, overlapping on three ticks and apart
  on the next two.
\<close>

lemma lifecycle_stable_key_example:
  "notInContact ''0-1'' box_a box_b (collisionMatrix newPhysics) \<and>
   stablePair ''0-1'' box_a box_b touch_tick \<and> stablePair ''0-1'' box_a box_b apart_tick \<and>
   overlapsInPass box_a box_b touch_tick \<and> \<not> overlapsInPass box_a box_b apart_tick \<and>
   map (filter (callsBetween box_a box_b))
     (detectRun newPhysics [touch_tick, touch_tick, touch_tick, apart_tick, apart_tick])
     = [[Call box_a OnCollisionEnter box_b, Call box_b OnCollisionEnter box_a],
        [Call box_a OnCollisionStay box_b, Call box_b OnCollisionStay box_a],
        [Call box_a OnCollisionStay box_b, Call box_b OnCollisionStay box_a],
        [Call box_a OnCollisionExit box_b, Call box_b OnCollisionExit box_a],
        []]"
proof -
  have n: "notInContact ''0-1'' box_a box_b (collisionMatrix newPhysics)"
    by (simp add: notInContact_def newPhysics_def)
  have "map (filter (callsBetween box_a box_b))
     (detectRun newPhysics ([touch_tick, touch_tick, touch_tick] @ [apart_tick, apart_tick]))
     = [Call box_a OnCollisionEnter box_b, Call box_b OnCollisionEnter box_a]
       # replicate (length [touch_tick, touch_tick, touch_tick] - 1)
           [Call box_a OnCollisionStay box_b, Call box_b OnCollisionStay box_a]
       @ (if [apart_tick, apart_tick] = [] then []
          else [Call box_a OnCollisionExit box_b, Call box_b OnCollisionExit box_a]
               # replicate (length [apart_tick, apart_tick] - 1) [])"
    using touch_stable apart_stable touch_overlaps apart_separate
    by (intro lifecycle_stable_key [OF n]) simp_all
  then show ?thesis
    using n touch_stable apart_stable touch_overlaps apart_separate
    by (simp add: numeral_2_eq_2)
qed

lemma crowd_run:
  "detectRun newPhysics [crowd_tick, thinned_tick, apart_tick, apart_tick]
     = [[Intersect box_z box_a, Intersect box_z box_b, Intersect box_a box_b,
         Call box_a OnCollisionEnter box_b, Call box_b OnCollisionEnter box_a,
         Resolve box_a box_b],
        [Intersect box_a box_b,
         Call box_a OnCollisionEnter box_b, Call box_b OnCollisionEnter box_a,
         Resolve box_a box_b,
         Call box_a OnCollisionExit box_b, Call box_b OnCollisionExit box_a],
        [Intersect box_a box_b,
         Call box_a OnCollisionExit box_b, Call box_b OnCollisionExit box_a],
        [Intersect box_a box_b]]"
  by (simp add: crowd_tick_def thinned_tick_def apart_tick_def removeCollider_def detect_eval
      box_fields zoo_store_def chain_store_def apart_store_def)

text \<open>
  C3 fails on the code when the key of the pair changes between two ticks. Two unnamed
  boxes are registered after a far-away box whose game object is named \<open>z\<close>: the keys
  of the first tick are \<open>z-1\<close>, \<open>z-2\<close> and, for the pair, \<open>1-2\<close>. The far-away box
  is unregistered; on the second tick the pair has the key \<open>0-1\<close>. No key is shared with
  another pair on any tick. The pair overlaps on the first two ticks and is apart on the
  third and fourth. The first tick delivers \<open>onCollisionEnter\<close>; the second, on which
  the pair still overlaps, delivers \<open>onCollisionEnter\<close> again and \<open>onCollisionExit\<close>,
  and no \<open>onCollisionStay\<close>; the third delivers \<open>onCollisionExit\<close> a second time; the
  fourth nothing.
\<close>

theorem collision_lifecycle_key_shift:
  "map (keyAt (fst crowd_tick) (snd crowd_tick)) (pairs 3) = [''z-1'', ''z-2'', ''1-2''] \<and>
   map (keyAt (fst thinned_tick) (snd thinned_tick)) (pairs 2) = [''0-1''] \<and>
   map (keyAt (fst apart_tick) (snd apart_tick)) (pairs 2) = [''0-1''] \<and>
   overlapsInPass box_a box_b crowd_tick \<and> overlapsInPass box_a box_b thinned_tick \<and>
   \<not> overlapsInPass box_a box_b apart_tick \<and>
   map (filter (callsBetween box_a box_b))
     (detectRun newPhysics [crowd_tick, thinned_tick, apart_tick, apart_tick])
     = [[Call box_a OnCollisionEnter box_b, Call box_b OnCollisionEnter box_a],
        [Call box_a OnCollisionEnter box_b, Call box_b OnCollisionEnter box_a,
         Call box_a OnCollisionExit box_b, Call box_b OnCollisionExit box_a],
        [Call box_a OnCollisionExit box_b, Call box_b OnCollisionExit box_a],
        []]"
proof -
  have k1: "map (keyAt (fst crowd_tick) (snd crowd_tick)) (pairs 3) = [''z-1'', ''z-2'', ''1-2'']"
    by (simp add: numeral_3_eq_3 pairs_3 keyAt_def crowd_tick_def pairKey_def nameOr_def
        show_nat_digit digit_char_def box_fields zoo_store_def chain_store_def newGameObject_def)
  have k2: "map (keyAt (fst thinned_tick) (snd thinned_tick)) (pairs 2) = [''0-1'']"
    by (simp add: numeral_2_eq_2 pairs_2 keyAt_def thinned_tick_def removeCollider_def
        pairKey_def nameOr_def show_nat_digit digit_char_def box_fields zoo_store_def
        chain_store_def newGameObject_def)
  have k3: "map (keyAt (fst apart_tick) (snd apart_tick)) (pairs 2) = [''0-1'']"
    by (simp add: numeral_2_eq_2 pairs_2 keyAt_def apart_tick_def
        pairKey_def nameOr_def show_nat_digit digit_char_def box_fields apart_store_def
        newGameObject_def)
  have o1: "overlapsInPass box_a box_b crowd_tick"
    by (simp add: overlapsInPass_def crowd_tick_def box_fields storeBefore_def pairs_3
        stepStore_def Let_def isColliding_def boxIntersects_def getBounds_def
        getWorldPosition_def zoo_store_def chain_store_def newGameObject_def)
  have o2: "overlapsInPass box_a box_b thinned_tick"
    by (simp add: overlapsInPass_def thinned_tick_def removeCollider_def box_fields
        storeBefore_def pairs_2 isColliding_def boxIntersects_def getBounds_def
        getWorldPosition_def zoo_store_def chain_store_def newGameObject_def)
  have o3: "\<not> overlapsInPass box_a box_b apart_tick"
    by (simp add: overlapsInPass_def apart_tick_def box_fields storeBefore_def pairs_2
        isColliding_def boxIntersects_def getBounds_def getWorldPosition_def apart_store_def
        newGameObject_def)
  have r: "map (filter (callsBetween box_a box_b))
     (detectRun newPhysics [crowd_tick, thinned_tick, apart_tick, apart_tick])
     = [[Call box_a OnCollisionEnter box_b, Call box_b OnCollisionEnter box_a],
        [Call box_a OnCollisionEnter box_b, Call box_b OnCollisionEnter box_a,
         Call box_a OnCollisionExit box_b, Call box_b OnCollisionExit box_a],
        [Call box_a OnCollisionExit box_b, Call box_b OnCollisionExit box_a],
        []]"
    by (simp only: crowd_run) (simp add: box_fields)
  show ?thesis
    using k1 k2 k3 o1 o2 o3 r by blast
qed

section \<open>Ray casting: the nearest hit, and the end of the ray\<close>

lemma jsless_irrefl: "\<not> jsless a a"
  by (cases a) simp_all

lemma jsless_trans: "jsless a b \<Longrightarrow> jsless b c \<Longrightarrow> jsless a c"
  by (cases a; cases b; cases c) simp_all

lemma jsless_asym: "jsless a b \<Longrightarrow> \<not> jsless b a"
  using jsless_trans [of a b a] jsless_irrefl [of a] by blast

text \<open>The loop of \<open>raycast\<close>, one collider at a time, in terms of \<open>candidate\<close>.\<close>

lemma raycastLoop_step:
  "raycastLoop st x0 y0 dirX dirY distance (c # cs) closestHit closestDistance =
     (case candidate st x0 y0 dirX dirY distance c of
        Some hit \<Rightarrow>
          if jsless (hit_distance hit) closestDistance
          then raycastLoop st x0 y0 dirX dirY distance cs (Some (hit, c)) (hit_distance hit)
          else raycastLoop st x0 y0 dirX dirY distance cs closestHit closestDistance
      | None \<Rightarrow> raycastLoop st x0 y0 dirX dirY distance cs closestHit closestDistance)"
  by (simp add: candidate_def split: shape.splits option.splits)

text \<open>
  The loop returns the hit it started with when no collider of the list has a hit
  nearer than \<open>closestDistance\<close>; otherwise it returns a collider of the list with its
  hit, nearer than \<open>closestDistance\<close>, and no collider of the list has a nearer hit.
\<close>

lemma raycastLoop_nearest:
  assumes "\<not> jsless (Num distance) closestDistance"
  shows "(raycastLoop st x0 y0 dirX dirY distance cs closestHit closestDistance = closestHit \<and>
          (\<forall>c \<in> set cs. \<forall>h. candidate st x0 y0 dirX dirY distance c = Some h
              \<longrightarrow> \<not> jsless (hit_distance h) closestDistance)) \<or>
         (\<exists>h c. raycastLoop st x0 y0 dirX dirY distance cs closestHit closestDistance = Some (h, c) \<and>
            c \<in> set cs \<and> candidate st x0 y0 dirX dirY distance c = Some h \<and>
            jsless (hit_distance h) closestDistance \<and>
            (\<forall>c' \<in> set cs. \<forall>h'. candidate st x0 y0 dirX dirY distance c' = Some h'
               \<longrightarrow> \<not> jsless (hit_distance h') (hit_distance h)))"
  using assms
proof (induction cs arbitrary: closestHit closestDistance)
  case Nil
  then show ?case by simp
next
  case (Cons c cs)
  let ?loop = "raycastLoop st x0 y0 dirX dirY distance"
  let ?cand = "candidate st x0 y0 dirX dirY distance"
  show ?case
  proof (cases "?cand c")
    case None
    then have eq: "?loop (c # cs) closestHit closestDistance = ?loop cs closestHit closestDistance"
      by (simp only: raycastLoop_step option.case)
    from Cons.IH [OF Cons.prems, of closestHit] show ?thesis
      unfolding eq using None by (elim disjE) (simp, (rule disjI2, force))
  next
    case (Some hit)
    show ?thesis
    proof (cases "jsless (hit_distance hit) closestDistance")
      case True
      then have eq: "?loop (c # cs) closestHit closestDistance
                       = ?loop cs (Some (hit, c)) (hit_distance hit)"
        using Some by (simp only: raycastLoop_step option.case if_True)
      have inv: "\<not> jsless (Num distance) (hit_distance hit)"
        using True Cons.prems jsless_trans by blast
      from Cons.IH [OF inv, of "Some (hit, c)"] show ?thesis
      proof
        assume a: "?loop cs (Some (hit, c)) (hit_distance hit) = Some (hit, c) \<and>
          (\<forall>c \<in> set cs. \<forall>h. ?cand c = Some h \<longrightarrow> \<not> jsless (hit_distance h) (hit_distance hit))"
        have "\<forall>c' \<in> set (c # cs). \<forall>h'. ?cand c' = Some h'
                \<longrightarrow> \<not> jsless (hit_distance h') (hit_distance hit)"
          using a Some jsless_irrefl by auto
        then show ?thesis
          unfolding eq using a Some True by (intro disjI2 exI [of _ hit] exI [of _ c]) simp
      next
        assume "\<exists>h c'. ?loop cs (Some (hit, c)) (hit_distance hit) = Some (h, c') \<and>
            c' \<in> set cs \<and> ?cand c' = Some h \<and> jsless (hit_distance h) (hit_distance hit) \<and>
            (\<forall>c'' \<in> set cs. \<forall>h'. ?cand c'' = Some h'
               \<longrightarrow> \<not> jsless (hit_distance h') (hit_distance h))"
        then obtain h c' where b: "?loop cs (Some (hit, c)) (hit_distance hit) = Some (h, c')"
          "c' \<in> set cs" "?cand c' = Some h" "jsless (hit_distance h) (hit_distance hit)"
          "\<forall>c'' \<in> set cs. \<forall>h'. ?cand c'' = Some h'
               \<longrightarrow> \<not> jsless (hit_distance h') (hit_distance h)"
          by blast
        have 1: "jsless (hit_distance h) closestDistance"
          using b(4) True by (rule jsless_trans)
        have 2: "\<not> jsless (hit_distance hit) (hit_distance h)"
          using b(4) by (rule jsless_asym)
        have "\<forall>c'' \<in> set (c # cs). \<forall>h'. ?cand c'' = Some h'
               \<longrightarrow> \<not> jsless (hit_distance h') (hit_distance h)"
          using b(5) 2 Some by auto
        then show ?thesis
          unfolding eq using b(1,2,3) 1 by (intro disjI2 exI [of _ h] exI [of _ c']) simp
      qed
    next
      case False
      then have eq: "?loop (c # cs) closestHit closestDistance = ?loop cs closestHit closestDistance"
        using Some by (simp only: raycastLoop_step option.case if_False)
      from Cons.IH [OF Cons.prems, of closestHit] show ?thesis
      proof
        assume a: "?loop cs closestHit closestDistance = closestHit \<and>
          (\<forall>c \<in> set cs. \<forall>h. ?cand c = Some h \<longrightarrow> \<not> jsless (hit_distance h) closestDistance)"
        have "\<forall>c' \<in> set (c # cs). \<forall>h. ?cand c' = Some h
                \<longrightarrow> \<not> jsless (hit_distance h) closestDistance"
          using a Some False by auto
        then show ?thesis unfolding eq using a by blast
      next
        assume "\<exists>h c'. ?loop cs closestHit closestDistance = Some (h, c') \<and>
            c' \<in> set cs \<and> ?cand c' = Some h \<and> jsless (hit_distance h) closestDistance \<and>
            (\<forall>c'' \<in> set cs. \<forall>h'. ?cand c'' = Some h'
               \<longrightarrow> \<not> jsless (hit_distance h') (hit_distance h))"
        then obtain h c' where b: "?loop cs closestHit closestDistance = Some (h, c')"
          "c' \<in> set cs" "?cand c' = Some h" "jsless (hit_distance h) closestDistance"
          "\<forall>c'' \<in> set cs. \<forall>h'. ?cand c'' = Some h'
               \<longrightarrow> \<not> jsless (hit_distance h') (hit_distance h)"
          by blast
        have 2: "\<not> jsless (hit_distance hit) (hit_distance h)"
          using False b(4) jsless_trans by blast
        have "\<forall>c'' \<in> set (c # cs). \<forall>h'. ?cand c'' = Some h'
               \<longrightarrow> \<not> jsless (hit_distance h') (hit_distance h)"
          using b(5) 2 Some by auto
        then show ?thesis
          unfolding eq using b(1,2,3,4) by (intro disjI2 exI [of _ h] exI [of _ c']) simp
      qed
    qed
  qed
qed

text \<open>
  What \<open>raycast\<close> does: it returns no hit when no active box has a \<open>raycastBox\<close> hit at a
  distance less than the length of the ray; otherwise it returns an active box with its
  hit, at a distance less than the length, such that no active box has a nearer hit.
\<close>

lemma raycast_nearest:
  "(raycast ph st x0 y0 dirX dirY distance = None \<and>
    (\<forall>c \<in> set (colliders ph). \<forall>h. candidate st x0 y0 dirX dirY distance c = Some h
        \<longrightarrow> \<not> jsless (hit_distance h) (Num distance))) \<or>
   (\<exists>h c. raycast ph st x0 y0 dirX dirY distance = Some (h, c) \<and>
      c \<in> set (colliders ph) \<and> candidate st x0 y0 dirX dirY distance c = Some h \<and>
      jsless (hit_distance h) (Num distance) \<and>
      (\<forall>c' \<in> set (colliders ph). \<forall>h'. candidate st x0 y0 dirX dirY distance c' = Some h'
         \<longrightarrow> \<not> jsless (hit_distance h') (hit_distance h)))"
  unfolding raycast_def
  by (rule raycastLoop_nearest) (rule jsless_irrefl)

text \<open>
  What \<open>raycastBox\<close> does: it returns a hit exactly when the slab values satisfy none of
  exit \<open><\<close> entry, exit \<open><\<close> 0 and length \<open><\<close> entry; the hit is at distance entry and at
  the point origin + direction * entry.
\<close>

lemma raycastBox_hit:
  "raycastBox x0 y0 dirX dirY maxDistance box = Some hit \<longleftrightarrow>
     (let tEntry = jsmax (jsmin (jsdiv (bnd_x box - x0) dirX)
                                (jsdiv (bnd_x box + bnd_width box - x0) dirX))
                         (jsmin (jsdiv (bnd_y box - y0) dirY)
                                (jsdiv (bnd_y box + bnd_height box - y0) dirY));
          tExit = jsmin (jsmax (jsdiv (bnd_x box - x0) dirX)
                               (jsdiv (bnd_x box + bnd_width box - x0) dirX))
                        (jsmax (jsdiv (bnd_y box - y0) dirY)
                               (jsdiv (bnd_y box + bnd_height box - y0) dirY))
      in \<not> jsless tExit tEntry \<and> \<not> jsless tExit (Num 0) \<and> \<not> jsless (Num maxDistance) tEntry \<and>
         hit = \<lparr>hit_distance = tEntry, hit_x = jsadd x0 (jsmul dirX tEntry),
                hit_y = jsadd y0 (jsmul dirY tEntry)\<rparr>)"
  by (auto simp: raycastBox_def Let_def)

lemmas ray_eval = raycast_def ray_world_def box_c_def newBoxCollider_def newPhysics_def
  raycastBox_def getBounds_def getWorldPosition_def newGameObject_def jsdiv_def jsmin_def
  jsmax_def Let_def

text \<open>
  C7 fails on the code at the end of the ray. For the ray from (0, 0) in direction (1, 0)
  with length 50 and the box with bounds \<open>{x:50, y:-5, w:10, h:10}\<close>, the slab values are
  entry 50 and exit 60, so entry \<open>\<le>\<close> exit, exit \<open>\<ge>\<close> 0 and entry \<open>\<le>\<close> length, and
  \<open>raycastBox\<close> returns the hit; \<open>raycast\<close> drops it, because it keeps a hit only when
  its distance is less than \<open>closestDistance\<close>, which starts at the length.
\<close>

theorem raycast_at_max_distance:
  "raycastBox 0 0 1 0 50 \<lparr>bnd_x = 50, bnd_y = - 5, bnd_width = 10, bnd_height = 10\<rparr>
     = Some \<lparr>hit_distance = Num 50, hit_x = Num 50, hit_y = Num 0\<rparr> \<and>
   boxBounds ray_store box_c = Some \<lparr>bnd_x = 50, bnd_y = - 5, bnd_width = 10, bnd_height = 10\<rparr> \<and>
   raycast ray_world ray_store 0 0 1 0 50 = None"
  by (simp add: ray_eval ray_store_def boxBounds_def)

text \<open>
  The two examples of C7 hold: with length 100 the same ray hits the box at distance 50
  and point (50, 0); against the box behind the origin (bounds \<open>{x:-50, y:-5}\<close>) there
  is no hit.
\<close>

lemma raycast_examples:
  "raycast ray_world ray_store 0 0 1 0 100
     = Some (\<lparr>hit_distance = Num 50, hit_x = Num 50, hit_y = Num 0\<rparr>, box_c) \<and>
   boxBounds behind_store box_c
     = Some \<lparr>bnd_x = - 50, bnd_y = - 5, bnd_width = 10, bnd_height = 10\<rparr> \<and>
   raycast ray_world behind_store 0 0 1 0 100 = None"
  by (simp add: ray_eval ray_store_def behind_store_def boxBounds_def)

end
